theory Spec2Isabelle
  imports Main "HOL-Library.Word" "HOL-Library.FSet" "HOL-Library.Finite_Map"
begin

section \<open>Data model of scope.go\<close>

text \<open>
  Go values are modelled as follows.
  \<^item> A \<open>map[string]T\<close> is a finite map; a map that may be \<open>nil\<close> is an option of one
    (\<open>None\<close> is the nil map, which reads as empty and has length 0).
  \<^item> \<open>time.Duration\<close> is an int64, kept as the 64-bit word of its two's complement, so
    that the conversion \<open>uint64(dur)\<close> is the identity on the representation.
  \<^item> A \<open>float64\<close> is kept as its IEEE-754 bit pattern, which is exactly what
    \<open>math.Float64bits\<close> returns.
  \<^item> A pointer to a metric or to a bucket storage is an address: the index of the object
    in the heap, and \<open>new\<close> appends to the heap.
  \<^item> An interface value that may be nil (a reporter, an error, a cached handle) is an
    option.
  \<^item> Every call that leaves scope.go (a reporter method, a metric's report method, a
    mutex operation) is recorded, in order, in a trace.
\<close>

type_synonym addr = nat
type_synonym handle = nat
type_synonym duration = "64 word"
type_synonym float64 = "64 word"
type_synonym goerror = "string option"
type_synonym gotags = "(string, string) fmap option"

text \<open>The order in which a \<open>range\<close> loop visits the keys of a map is chosen by the Go
  runtime; it is a parameter of every function that ranges over a map.\<close>

type_synonym rangeOrder = "string fset \<Rightarrow> string list"

definition enumerates :: "string list \<Rightarrow> string fset \<Rightarrow> bool" where
  "enumerates ks K = (distinct ks \<and> set ks = fset K)"

definition gomap :: "(string, 'v) fmap option \<Rightarrow> (string, 'v) fmap" where
  "gomap t = (case t of None \<Rightarrow> fmempty | Some m \<Rightarrow> m)"

definition golen :: "(string, 'v) fmap option \<Rightarrow> nat" where
  "golen t = fcard (fmdom (gomap t))"

definition gorange :: "rangeOrder \<Rightarrow> (string, 'v) fmap \<Rightarrow> (string \<times> 'v) list" where
  "gorange ord m =
     List.map_filter (\<lambda>k. case fmlookup m k of None \<Rightarrow> None | Some v \<Rightarrow> Some (k, v))
       (ord (fmdom m))"

text \<open>The \<open>Buckets\<close> interface has two implementations in the package, the slices
  \<open>DurationBuckets\<close> and \<open>ValueBuckets\<close>; any other type with the interface's methods
  implements it too. Such a foreign implementation is described by what its \<open>Len\<close>
  method returns.\<close>

datatype Buckets = DurationBuckets "duration list" | ValueBuckets "float64 list"
  | OtherBuckets int

datatype histogramType = valueHistogramType | durationHistogramType

datatype panic = TypeAssertionPanic | CloseOfNilChannel | CloseOfClosedChannel

record capabilities =
  reporting :: bool
  tagging :: bool

text \<open>A reporter object (a \<open>StatsReporter\<close> or a \<open>CachedStatsReporter\<close>): its identity,
  what its \<open>Capabilities\<close> method returns and, when its dynamic type also implements
  \<open>io.Closer\<close>, the error that its \<open>Close\<close> method returns.\<close>

record reporterObj =
  rid :: nat
  caps :: capabilities
  closer :: "goerror option"

record sanitizer =
  Name :: "string \<Rightarrow> string"
  Key :: "string \<Rightarrow> string"
  Value :: "string \<Rightarrow> string"

text \<open>The accumulator of package internal/identity, which is not part of the sources at
  hand: it is a parameter, of an arbitrary state type.\<close>

record 'a accumulator =
  NewAccumulator :: "'a"
  AddUint64 :: "'a \<Rightarrow> 64 word \<Rightarrow> 'a"
  AccValue :: "'a \<Rightarrow> 64 word"

datatype mutex = CM | GM | TM | HM | StatusMu

datatype chan = NilChan | OpenChan | ClosedChan

datatype obj =
    CounterObj "handle option"
  | GaugeObj "handle option"
  | TimerObj string gotags "reporterObj option" "handle option"
  | StorageObj histogramType Buckets "handle option"
  | HistogramObj histogramType string gotags "reporterObj option" addr

datatype event =
    RLock mutex | RUnlock mutex | Lock mutex | Unlock mutex
  | AllocateCounter reporterObj string gotags
  | AllocateGauge reporterObj string gotags
  | AllocateTimer reporterObj string gotags
  | AllocateHistogram reporterObj string gotags Buckets
  | CounterReport addr string gotags reporterObj
  | GaugeReport addr string gotags reporterObj
  | HistogramReport addr string gotags reporterObj
  | CounterCachedReport addr
  | GaugeCachedReport addr
  | HistogramCachedReport addr
  | ReporterFlush reporterObj
  | CachedReporterFlush reporterObj
  | CloserClose reporterObj

record store =
  heap :: "obj list"
  trace :: "event list"

record scope =
  separator :: string
  prefix :: string
  tags :: gotags
  reporter :: "reporterObj option"
  cachedReporter :: "reporterObj option"
  baseReporter :: "reporterObj option"
  defaultBuckets :: Buckets
  sanitizer :: sanitizer
  closed :: bool
  quit :: chan
  counters :: "(string, addr) fmap"
  countersSlice :: "addr list"
  gauges :: "(string, addr) fmap"
  gaugesSlice :: "addr list"
  histograms :: "(string, addr) fmap"
  histogramsSlice :: "addr list"
  timers :: "(string, addr) fmap"
  bucketCache :: "(64 word, addr) fmap"

record ScopeOptions =
  Tags :: gotags
  Prefix :: string
  Reporter :: "reporterObj option"
  CachedReporter :: "reporterObj option"
  Separator :: string
  DefaultBuckets :: "Buckets option"
  SanitizeOptions :: "sanitizer option"

text \<open>The registry of a root scope owns every scope of the tree, the root included; a
  pointer to a scope is its index in \<open>scopes\<close>. The field \<open>registry\<close> of every scope of
  a world is that world.\<close>

record world =
  scopes :: "scope list"
  mem :: store
  reportLoopStarted :: bool

section \<open>Operations on the store\<close>

definition emit :: "event \<Rightarrow> store \<Rightarrow> store" where
  "emit e st = st\<lparr>trace := trace st @ [e]\<rparr>"

definition alloc :: "obj \<Rightarrow> store \<Rightarrow> addr \<times> store" where
  "alloc x st = (length (heap st), st\<lparr>heap := heap st @ [x]\<rparr>)"

text \<open>A call of an allocation method of the cached reporter is recorded, and the handle it
  returns is identified with the position of the call in the trace.\<close>

definition allocateHandle :: "event \<Rightarrow> store \<Rightarrow> handle option \<times> store" where
  "allocateHandle e st = (Some (length (trace st)), emit e st)"

section \<open>Functions of scope.go\<close>

definition DefaultSeparator :: string where
  "DefaultSeparator = ''.''"

definition defaultScopeBuckets :: Buckets where
  "defaultScopeBuckets = DurationBuckets
     [0, 10000000, 25000000, 50000000, 75000000, 100000000, 200000000, 300000000,
      400000000, 500000000, 600000000, 800000000, 1000000000, 2000000000, 5000000000]"

definition uint64 :: "duration \<Rightarrow> 64 word" where
  "uint64 dur = dur"

definition Float64bits :: "float64 \<Rightarrow> 64 word" where
  "Float64bits val = val"

text \<open>\<open>getBucketsIdentity\<close>: the type switch takes the duration branch for
  \<open>DurationBuckets\<close>; in the other branch the unchecked type assertion
  \<open>buckets.(ValueBuckets)\<close> panics for every other dynamic type.\<close>

definition getBucketsIdentity :: "'a accumulator \<Rightarrow> Buckets \<Rightarrow> panic + 64 word" where
  "getBucketsIdentity ac buckets =
     (case buckets of
        DurationBuckets dbuckets \<Rightarrow>
          Inr (AccValue ac
            (fold (\<lambda>dur a. AddUint64 ac a (uint64 dur)) dbuckets (NewAccumulator ac)))
      | ValueBuckets vbuckets \<Rightarrow>
          Inr (AccValue ac
            (fold (\<lambda>val a. AddUint64 ac a (Float64bits val)) vbuckets (NewAccumulator ac)))
      | OtherBuckets _ \<Rightarrow> Inl TypeAssertionPanic)"

definition fullyQualifiedName :: "scope \<Rightarrow> string \<Rightarrow> string" where
  "fullyQualifiedName s name =
     (if length (prefix s) = 0 then name else prefix s @ separator s @ name)"

definition copyAndSanitizeMap :: "rangeOrder \<Rightarrow> scope \<Rightarrow> gotags \<Rightarrow> gotags" where
  "copyAndSanitizeMap ord s tgs =
     Some (fold (\<lambda>(k, v) result. fmupd (Key (sanitizer s) k) (Value (sanitizer s) v) result)
             (gorange ord (gomap tgs)) fmempty)"

definition mergeRightTags :: "rangeOrder \<Rightarrow> gotags \<Rightarrow> gotags \<Rightarrow> gotags" where
  "mergeRightTags ord tagsLeft tagsRight =
     (if tagsLeft = None \<and> tagsRight = None then None
      else if golen tagsRight = 0 then tagsLeft
      else if golen tagsLeft = 0 then tagsRight
      else
        let result = fmempty;
            result = fold (\<lambda>(k, v) res. fmupd k v res) (gorange ord (gomap tagsLeft)) result;
            result = fold (\<lambda>(k, v) res. fmupd k v res) (gorange ord (gomap tagsRight)) result
        in Some result)"


subsection \<open>Reporting sweeps of one scope\<close>

text \<open>\<open>report\<close> ranges over the three name-to-instance maps; \<open>cachedReport\<close> ranges
  over the three slices. The methods \<open>report\<close> and \<open>cachedReport\<close> of the metric types
  live outside scope.go: each invocation is recorded with its receiver and arguments.\<close>

definition report :: "rangeOrder \<Rightarrow> scope \<Rightarrow> reporterObj \<Rightarrow> store \<Rightarrow> store" where
  "report ord s r st =
     (let st = emit (RLock CM) st;
          st = fold (\<lambda>(name, counter). emit
                 (CounterReport counter (fullyQualifiedName s name) (tags s) r))
                 (gorange ord (counters s)) st;
          st = emit (RUnlock CM) st;
          st = emit (RLock GM) st;
          st = fold (\<lambda>(name, gauge). emit
                 (GaugeReport gauge (fullyQualifiedName s name) (tags s) r))
                 (gorange ord (gauges s)) st;
          st = emit (RUnlock GM) st;
          st = emit (RLock HM) st;
          st = fold (\<lambda>(name, histogram). emit
                 (HistogramReport histogram (fullyQualifiedName s name) (tags s) r))
                 (gorange ord (histograms s)) st;
          st = emit (RUnlock HM) st
      in st)"

definition cachedReport :: "scope \<Rightarrow> store \<Rightarrow> store" where
  "cachedReport s st =
     (let st = emit (RLock CM) st;
          st = fold (\<lambda>counter. emit (CounterCachedReport counter)) (countersSlice s) st;
          st = emit (RUnlock CM) st;
          st = emit (RLock GM) st;
          st = fold (\<lambda>gauge. emit (GaugeCachedReport gauge)) (gaugesSlice s) st;
          st = emit (RUnlock GM) st;
          st = emit (RLock HM) st;
          st = fold (\<lambda>histogram. emit (HistogramCachedReport histogram))
                 (histogramsSlice s) st;
          st = emit (RUnlock HM) st
      in st)"

subsection \<open>Registration\<close>

text \<open>The lookups \<open>counter\<close>, \<open>gauge\<close>, \<open>timer\<close> and \<open>histogram\<close> under the read lock:
  Go's pair \<open>(c, ok)\<close> is an option.\<close>

definition counter :: "scope \<Rightarrow> store \<Rightarrow> string \<Rightarrow> addr option \<times> store" where
  "counter s st sanitizedName =
     (fmlookup (counters s) sanitizedName, emit (RUnlock CM) (emit (RLock CM) st))"

definition gauge :: "scope \<Rightarrow> store \<Rightarrow> string \<Rightarrow> addr option \<times> store" where
  "gauge s st name =
     (fmlookup (gauges s) name, emit (RUnlock GM) (emit (RLock GM) st))"

definition timer :: "scope \<Rightarrow> store \<Rightarrow> string \<Rightarrow> addr option \<times> store" where
  "timer s st sanitizedName =
     (fmlookup (timers s) sanitizedName, emit (RUnlock TM) (emit (RLock TM) st))"

definition histogram :: "scope \<Rightarrow> store \<Rightarrow> string \<Rightarrow> addr option \<times> store" where
  "histogram s st sanitizedName =
     (fmlookup (histograms s) sanitizedName, emit (RUnlock HM) (emit (RLock HM) st))"

definition Counter :: "scope \<Rightarrow> store \<Rightarrow> string \<Rightarrow> addr \<times> scope \<times> store" where
  "Counter s st name0 =
     (let name = Name (sanitizer s) name0;
          (found, st) = counter s st name
      in case found of
           Some c \<Rightarrow> (c, s, st)
         | None \<Rightarrow>
            (let st = emit (Lock CM) st
             in case fmlookup (counters s) name of
                  Some c \<Rightarrow> (c, s, emit (Unlock CM) st)
                | None \<Rightarrow>
                   (let (cachedCounter, st) =
                          (case cachedReporter s of
                             None \<Rightarrow> (None, st)
                           | Some cr \<Rightarrow> allocateHandle
                               (AllocateCounter cr (fullyQualifiedName s name) (tags s)) st);
                        (c, st) = alloc (CounterObj cachedCounter) st;
                        s = s\<lparr>counters := fmupd name c (counters s)\<rparr>;
                        s = s\<lparr>countersSlice := countersSlice s @ [c]\<rparr>
                    in (c, s, emit (Unlock CM) st))))"

definition Gauge :: "scope \<Rightarrow> store \<Rightarrow> string \<Rightarrow> addr \<times> scope \<times> store" where
  "Gauge s st name0 =
     (let name = Name (sanitizer s) name0;
          (found, st) = gauge s st name
      in case found of
           Some g \<Rightarrow> (g, s, st)
         | None \<Rightarrow>
            (let st = emit (Lock GM) st
             in case fmlookup (gauges s) name of
                  Some g \<Rightarrow> (g, s, emit (Unlock GM) st)
                | None \<Rightarrow>
                   (let (cachedGauge, st) =
                          (case cachedReporter s of
                             None \<Rightarrow> (None, st)
                           | Some cr \<Rightarrow> allocateHandle
                               (AllocateGauge cr (fullyQualifiedName s name) (tags s)) st);
                        (g, st) = alloc (GaugeObj cachedGauge) st;
                        s = s\<lparr>gauges := fmupd name g (gauges s)\<rparr>;
                        s = s\<lparr>gaugesSlice := gaugesSlice s @ [g]\<rparr>
                    in (g, s, emit (Unlock GM) st))))"

definition Timer :: "scope \<Rightarrow> store \<Rightarrow> string \<Rightarrow> addr \<times> scope \<times> store" where
  "Timer s st name0 =
     (let name = Name (sanitizer s) name0;
          (found, st) = timer s st name
      in case found of
           Some t \<Rightarrow> (t, s, st)
         | None \<Rightarrow>
            (let st = emit (Lock TM) st
             in case fmlookup (timers s) name of
                  Some t \<Rightarrow> (t, s, emit (Unlock TM) st)
                | None \<Rightarrow>
                   (let (cachedTimer, st) =
                          (case cachedReporter s of
                             None \<Rightarrow> (None, st)
                           | Some cr \<Rightarrow> allocateHandle
                               (AllocateTimer cr (fullyQualifiedName s name) (tags s)) st);
                        (t, st) = alloc (TimerObj (fullyQualifiedName s name) (tags s)
                                    (reporter s) cachedTimer) st;
                        s = s\<lparr>timers := fmupd name t (timers s)\<rparr>
                    in (t, s, emit (Unlock TM) st))))"

text \<open>\<open>Histogram\<close>. The argument \<open>b\<close> is an interface value: \<open>None\<close> is nil. The deferred
  \<open>Unlock\<close> also runs when \<open>getBucketsIdentity\<close> panics, and the call of
  \<open>AllocateHistogram\<close> precedes that panic.\<close>

definition Histogram ::
  "'a accumulator \<Rightarrow> scope \<Rightarrow> store \<Rightarrow> string \<Rightarrow> Buckets option
     \<Rightarrow> (panic + addr) \<times> scope \<times> store" where
  "Histogram ac s st name0 b0 =
     (let name = Name (sanitizer s) name0;
          (found, st) = histogram s st name
      in case found of
           Some h \<Rightarrow> (Inr h, s, st)
         | None \<Rightarrow>
            (let b = (case b0 of None \<Rightarrow> defaultBuckets s | Some b \<Rightarrow> b);
                 htype = (case b of DurationBuckets _ \<Rightarrow> durationHistogramType
                          | _ \<Rightarrow> valueHistogramType);
                 st = emit (Lock HM) st
             in case fmlookup (histograms s) name of
                  Some h \<Rightarrow> (Inr h, s, emit (Unlock HM) st)
                | None \<Rightarrow>
                   (let (cachedHistogram, st) =
                          (case cachedReporter s of
                             None \<Rightarrow> (None, st)
                           | Some cr \<Rightarrow> allocateHandle
                               (AllocateHistogram cr (fullyQualifiedName s name) (tags s) b) st)
                    in case getBucketsIdentity ac b of
                         Inl p \<Rightarrow> (Inl p, s, emit (Unlock HM) st)
                       | Inr bid \<Rightarrow>
                          (let (storage, s, st) =
                                 (case fmlookup (bucketCache s) bid of
                                    Some storage \<Rightarrow> (storage, s, st)
                                  | None \<Rightarrow>
                                     (let (storage, st) =
                                            alloc (StorageObj htype b cachedHistogram) st
                                      in (storage,
                                          s\<lparr>bucketCache := fmupd bid storage (bucketCache s)\<rparr>,
                                          st)));
                               (h, st) = alloc (HistogramObj htype (fullyQualifiedName s name)
                                           (tags s) (reporter s) storage) st;
                               s = s\<lparr>histograms := fmupd name h (histograms s)\<rparr>;
                               s = s\<lparr>histogramsSlice := histogramsSlice s @ [h]\<rparr>
                           in (Inr h, s, emit (Unlock HM) st)))))"

definition Capabilities :: "capabilities \<Rightarrow> scope \<Rightarrow> capabilities" where
  "Capabilities capabilitiesNone s =
     (case baseReporter s of None \<Rightarrow> capabilitiesNone | Some b \<Rightarrow> caps b)"


subsection \<open>The registry\<close>

text \<open>Modelled from the spec: the file scope_registry.go (\<open>newScopeRegistry\<close> and the
  methods \<open>Report\<close>, \<open>CachedReport\<close> and \<open>Subscope\<close> of the registry) is not among the
  sources. The spec says that \<open>Report\<close> and \<open>CachedReport\<close> invoke \<open>report\<close> and
  \<open>cachedReport\<close> on every scope currently registered, including the root. It fixes no
  order between scopes; the sweep below goes through the scopes in the order of their
  creation.\<close>

definition registry_Report :: "rangeOrder \<Rightarrow> world \<Rightarrow> reporterObj \<Rightarrow> world" where
  "registry_Report ord w r = w\<lparr>mem := fold (\<lambda>s. report ord s r) (scopes w) (mem w)\<rparr>"

definition registry_CachedReport :: "world \<Rightarrow> world" where
  "registry_CachedReport w = w\<lparr>mem := fold cachedReport (scopes w) (mem w)\<rparr>"

text \<open>Modelled from the spec: \<open>Subscope\<close> of the registry computes the identity (prefix,
  tags of the parent merged with the overriding tags) and returns the scope that has this
  identity when there is one; otherwise it constructs a child that inherits the parent's
  reporters, separator, sanitizer and default buckets, and registers it. The spec gives
  the child no status of its own and no reporting loop: its \<open>closed\<close> flag and \<open>quit\<close>
  channel have Go's zero values.\<close>

definition registry_Subscope ::
  "rangeOrder \<Rightarrow> world \<Rightarrow> scope \<Rightarrow> string \<Rightarrow> gotags \<Rightarrow> nat \<times> world" where
  "registry_Subscope ord w parent pfx tgs =
     (let allTags = mergeRightTags ord (tags parent) tgs
      in case filter (\<lambda>i. prefix (scopes w ! i) = pfx
                        \<and> gomap (tags (scopes w ! i)) = gomap allTags)
                [0 ..< length (scopes w)] of
           i # _ \<Rightarrow> (i, w)
         | [] \<Rightarrow>
            (let subscope = \<lparr>separator = separator parent, prefix = pfx, tags = allTags,
                   reporter = reporter parent, cachedReporter = cachedReporter parent,
                   baseReporter = baseReporter parent,
                   defaultBuckets = defaultBuckets parent, sanitizer = sanitizer parent,
                   closed = False, quit = NilChan,
                   counters = fmempty, countersSlice = [],
                   gauges = fmempty, gaugesSlice = [],
                   histograms = fmempty, histogramsSlice = [],
                   timers = fmempty, bucketCache = fmempty\<rparr>
             in (length (scopes w), w\<lparr>scopes := scopes w @ [subscope]\<rparr>)))"

subsection \<open>Scopes of a registry\<close>

text \<open>Modelled from the spec: \<open>NewNoOpSanitizer\<close> is defined outside scope.go; the spec
  says that without sanitize options the sanitizer is a no-op.\<close>

definition NewNoOpSanitizer :: sanitizer where
  "NewNoOpSanitizer = \<lparr>Name = (\<lambda>x. x), Key = (\<lambda>x. x), Value = (\<lambda>x. x)\<rparr>"

text \<open>Modelled from the spec: the method \<open>Len\<close> of the two bucket slices is defined
  outside scope.go; it is the length of the sequence.\<close>

definition BucketsLen :: "Buckets \<Rightarrow> int" where
  "BucketsLen b = (case b of DurationBuckets ds \<Rightarrow> int (length ds)
                   | ValueBuckets vs \<Rightarrow> int (length vs) | OtherBuckets n \<Rightarrow> n)"

text \<open>\<open>newRootScope\<close>. Sanitize options stand for the sanitizer that \<open>NewSanitizer\<close>
  builds from them. The goroutine running \<open>reportLoop\<close> is started when the interval is
  positive; each of its ticks is a call of \<open>reportLoopRun\<close>.\<close>

definition newRootScope :: "rangeOrder \<Rightarrow> ScopeOptions \<Rightarrow> int \<Rightarrow> world" where
  "newRootScope ord opts interval =
     (let san = (case SanitizeOptions opts of None \<Rightarrow> NewNoOpSanitizer | Some so \<Rightarrow> so);
          optsTags = (case Tags opts of None \<Rightarrow> Some fmempty | Some t \<Rightarrow> Some t);
          optsSeparator = (if Separator opts = [] then DefaultSeparator else Separator opts);
          base = (case Reporter opts of
                    Some r \<Rightarrow> Some r
                  | None \<Rightarrow> (case CachedReporter opts of
                               Some cr \<Rightarrow> Some cr
                             | None \<Rightarrow> None));
          optsDefaultBuckets = (case DefaultBuckets opts of
                                  None \<Rightarrow> defaultScopeBuckets
                                | Some b \<Rightarrow> if BucketsLen b < 1 then defaultScopeBuckets else b);
          s = \<lparr>separator = Name san optsSeparator,
               prefix = Name san (Prefix opts),
               tags = None,
               reporter = Reporter opts, cachedReporter = CachedReporter opts,
               baseReporter = base,
               defaultBuckets = optsDefaultBuckets, sanitizer = san,
               closed = False, quit = OpenChan,
               counters = fmempty, countersSlice = [],
               gauges = fmempty, gaugesSlice = [],
               histograms = fmempty, histogramsSlice = [],
               timers = fmempty, bucketCache = fmempty\<rparr>;
          s = s\<lparr>tags := copyAndSanitizeMap ord s optsTags\<rparr>
      in \<lparr>scopes = [s], mem = \<lparr>heap = [], trace = []\<rparr>, reportLoopStarted = (interval > 0)\<rparr>)"

definition emitW :: "event \<Rightarrow> world \<Rightarrow> world" where
  "emitW e w = w\<lparr>mem := emit e (mem w)\<rparr>"

definition reportRegistryWithLock :: "rangeOrder \<Rightarrow> scope \<Rightarrow> world \<Rightarrow> world" where
  "reportRegistryWithLock ord s w =
     (case reporter s of
        Some r \<Rightarrow> emitW (ReporterFlush r) (registry_Report ord w r)
      | None \<Rightarrow>
         (case cachedReporter s of
            Some cr \<Rightarrow> emitW (CachedReporterFlush cr) (registry_CachedReport w)
          | None \<Rightarrow> w))"

text \<open>\<open>reportLoopRun\<close>, one tick of the reporting loop; the receiver is only read.\<close>

definition reportLoopRun :: "rangeOrder \<Rightarrow> scope \<Rightarrow> world \<Rightarrow> world" where
  "reportLoopRun ord s w =
     (let w = emitW (RLock StatusMu) w
      in if closed s then emitW (RUnlock StatusMu) w
         else emitW (RUnlock StatusMu) (reportRegistryWithLock ord s w))"

text \<open>\<open>Close\<close> of the scope at index \<open>i\<close>. Closing a channel that is nil or already closed
  panics; the deferred \<open>Unlock\<close> runs in every case, after the closer's \<open>Close\<close>.\<close>

definition Close :: "rangeOrder \<Rightarrow> nat \<Rightarrow> world \<Rightarrow> (panic + goerror) \<times> world" where
  "Close ord i w =
     (let w = emitW (Lock StatusMu) w;
          s = scopes w ! i
      in if closed s then (Inr None, emitW (Unlock StatusMu) w)
         else
          (let s = s\<lparr>closed := True\<rparr>;
               w = w\<lparr>scopes := (scopes w)[i := s]\<rparr>
           in case quit s of
                NilChan \<Rightarrow> (Inl CloseOfNilChannel, emitW (Unlock StatusMu) w)
              | ClosedChan \<Rightarrow> (Inl CloseOfClosedChannel, emitW (Unlock StatusMu) w)
              | OpenChan \<Rightarrow>
                 (let s = s\<lparr>quit := ClosedChan\<rparr>;
                      w = w\<lparr>scopes := (scopes w)[i := s]\<rparr>;
                      w = reportRegistryWithLock ord s w
                  in case baseReporter s of
                       None \<Rightarrow> (Inr None, emitW (Unlock StatusMu) w)
                     | Some b \<Rightarrow>
                        (case closer b of
                           None \<Rightarrow> (Inr None, emitW (Unlock StatusMu) w)
                         | Some err \<Rightarrow>
                            (Inr err, emitW (Unlock StatusMu) (emitW (CloserClose b) w))))))"

definition subscope :: "rangeOrder \<Rightarrow> world \<Rightarrow> scope \<Rightarrow> string \<Rightarrow> gotags \<Rightarrow> nat \<times> world" where
  "subscope ord w s pfx tgs = registry_Subscope ord w s pfx tgs"

definition Tagged :: "rangeOrder \<Rightarrow> world \<Rightarrow> scope \<Rightarrow> gotags \<Rightarrow> nat \<times> world" where
  "Tagged ord w s tgs =
     (let tgs = copyAndSanitizeMap ord s tgs in subscope ord w s (prefix s) tgs)"

definition SubScope :: "rangeOrder \<Rightarrow> world \<Rightarrow> scope \<Rightarrow> string \<Rightarrow> nat \<times> world" where
  "SubScope ord w s pfx =
     (let pfx = Name (sanitizer s) pfx in subscope ord w s (fullyQualifiedName s pfx) None)"


section \<open>Notions used in the statements\<close>

definition emits :: "event list \<Rightarrow> store \<Rightarrow> store" where
  "emits es st = st\<lparr>trace := trace st @ es\<rparr>"

definition emitsW :: "event list \<Rightarrow> world \<Rightarrow> world" where
  "emitsW es w = w\<lparr>mem := emits es (mem w)\<rparr>"

text \<open>The events of one \<open>report\<close> sweep and of one \<open>cachedReport\<close> sweep of a scope, and
  of one pass of \<open>reportRegistryWithLock\<close> over the scopes \<open>ss\<close> of the registry.\<close>

definition reportEvents :: "rangeOrder \<Rightarrow> scope \<Rightarrow> reporterObj \<Rightarrow> event list" where
  "reportEvents ord s r =
     [RLock CM]
     @ map (\<lambda>(name, c). CounterReport c (fullyQualifiedName s name) (tags s) r)
         (gorange ord (counters s))
     @ [RUnlock CM, RLock GM]
     @ map (\<lambda>(name, g). GaugeReport g (fullyQualifiedName s name) (tags s) r)
         (gorange ord (gauges s))
     @ [RUnlock GM, RLock HM]
     @ map (\<lambda>(name, h). HistogramReport h (fullyQualifiedName s name) (tags s) r)
         (gorange ord (histograms s))
     @ [RUnlock HM]"

definition cachedReportEvents :: "scope \<Rightarrow> event list" where
  "cachedReportEvents s =
     [RLock CM] @ map CounterCachedReport (countersSlice s)
     @ [RUnlock CM, RLock GM] @ map GaugeCachedReport (gaugesSlice s)
     @ [RUnlock GM, RLock HM] @ map HistogramCachedReport (histogramsSlice s)
     @ [RUnlock HM]"

definition pushPass :: "rangeOrder \<Rightarrow> reporterObj \<Rightarrow> scope list \<Rightarrow> event list" where
  "pushPass ord r ss = concat (map (\<lambda>x. reportEvents ord x r) ss) @ [ReporterFlush r]"

definition cachedPass :: "reporterObj \<Rightarrow> scope list \<Rightarrow> event list" where
  "cachedPass cr ss = concat (map cachedReportEvents ss) @ [CachedReporterFlush cr]"

definition passEvents :: "rangeOrder \<Rightarrow> scope \<Rightarrow> scope list \<Rightarrow> event list" where
  "passEvents ord s ss =
     (case reporter s of
        Some r \<Rightarrow> pushPass ord r ss
      | None \<Rightarrow> (case cachedReporter s of Some cr \<Rightarrow> cachedPass cr ss | None \<Rightarrow> []))"

fun isFlush :: "event \<Rightarrow> bool" where
  "isFlush (ReporterFlush _) = True"
| "isFlush (CachedReporterFlush _) = True"
| "isFlush _ = False"

text \<open>The events of the cached path: the \<open>cachedReport\<close> methods of the metrics and
  \<open>Flush\<close> of the cached reporter.\<close>

fun isCachedPath :: "event \<Rightarrow> bool" where
  "isCachedPath (CounterCachedReport _) = True"
| "isCachedPath (GaugeCachedReport _) = True"
| "isCachedPath (HistogramCachedReport _) = True"
| "isCachedPath (CachedReporterFlush _) = True"
| "isCachedPath _ = False"

text \<open>The counters whose \<open>report\<close> method a trace invokes, in the order of the
  invocations.\<close>

definition reportedCounters :: "event list \<Rightarrow> addr list" where
  "reportedCounters es =
     List.map_filter (\<lambda>e. case e of CounterReport c _ _ _ \<Rightarrow> Some c | _ \<Rightarrow> None) es"

text \<open>What \<open>Close\<close> of a base reporter gives: the error of its closer, nil when it has
  no closer or when there is no base reporter.\<close>

definition closerResult :: "reporterObj option \<Rightarrow> goerror" where
  "closerResult base =
     (case base of
        None \<Rightarrow> None
      | Some b \<Rightarrow> (case closer b of None \<Rightarrow> None | Some err \<Rightarrow> err))"

definition closerEvents :: "reporterObj option \<Rightarrow> event list" where
  "closerEvents base =
     (case base of
        None \<Rightarrow> []
      | Some b \<Rightarrow> (case closer b of None \<Rightarrow> [] | Some err \<Rightarrow> [CloserClose b]))"

text \<open>A sequence of registration calls on one scope. A panicking call leaves the scope as
  it is at the panic, and the sequence goes on (the caller recovers).\<close>

datatype regcall = CallCounter string | CallGauge string | CallTimer string
  | CallHistogram string "Buckets option"

fun register :: "'a accumulator \<Rightarrow> regcall \<Rightarrow> scope \<times> store \<Rightarrow> scope \<times> store" where
  "register ac (CallCounter n) (s, st) = snd (Counter s st n)"
| "register ac (CallGauge n) (s, st) = snd (Gauge s st n)"
| "register ac (CallTimer n) (s, st) = snd (Timer s st n)"
| "register ac (CallHistogram n b) (s, st) = snd (Histogram ac s st n b)"

definition registerAll ::
  "'a accumulator \<Rightarrow> regcall list \<Rightarrow> scope \<times> store \<Rightarrow> scope \<times> store" where
  "registerAll ac calls x = fold (register ac) calls x"

text \<open>One instance per name, in a heap of \<open>n\<close> objects: the slice lists each instance of
  the map once and nothing else, in the order of allocation; there are as many instances
  as names, and every instance is an object of the heap.\<close>

definition oneInstancePerName :: "(string, addr) fmap \<Rightarrow> addr list \<Rightarrow> nat \<Rightarrow> bool" where
  "oneInstancePerName m xs n =
     (distinct xs \<and> sorted_wrt (<) xs \<and> fset_of_list xs = fmran m
      \<and> length xs = fcard (fmdom m) \<and> list_all (\<lambda>a. a < n) xs)"

definition injectiveMap :: "('k, addr) fmap \<Rightarrow> nat \<Rightarrow> bool" where
  "injectiveMap m n =
     (fcard (fmran m) = fcard (fmdom m) \<and> fBall (fmran m) (\<lambda>a. a < n))"

definition registryInvariant :: "scope \<Rightarrow> store \<Rightarrow> bool" where
  "registryInvariant s st =
     (oneInstancePerName (counters s) (countersSlice s) (length (heap st))
      \<and> oneInstancePerName (gauges s) (gaugesSlice s) (length (heap st))
      \<and> oneInstancePerName (histograms s) (histogramsSlice s) (length (heap st))
      \<and> injectiveMap (timers s) (length (heap st))
      \<and> injectiveMap (bucketCache s) (length (heap st)))"

text \<open>The type discriminant that \<open>Histogram\<close> computes for a bucket set.\<close>

definition htypeOf :: "Buckets \<Rightarrow> histogramType" where
  "htypeOf b = (case b of DurationBuckets _ \<Rightarrow> durationHistogramType | _ \<Rightarrow> valueHistogramType)"

text \<open>Registered instances stay: every name of \<open>s\<close> has the same instance in \<open>s'\<close>.\<close>

definition keepsInstances :: "scope \<Rightarrow> scope \<Rightarrow> bool" where
  "keepsInstances s s' =
     (sanitizer s' = sanitizer s
      \<and> (\<forall>k x. fmlookup (counters s) k = Some x \<longrightarrow> fmlookup (counters s') k = Some x)
      \<and> (\<forall>k x. fmlookup (gauges s) k = Some x \<longrightarrow> fmlookup (gauges s') k = Some x)
      \<and> (\<forall>k x. fmlookup (timers s) k = Some x \<longrightarrow> fmlookup (timers s') k = Some x)
      \<and> (\<forall>k x. fmlookup (histograms s) k = Some x \<longrightarrow> fmlookup (histograms s') k = Some x))"

text \<open>The bucket storage that the histogram at an address references.\<close>

definition storageOf :: "store \<Rightarrow> addr \<Rightarrow> addr option" where
  "storageOf st h =
     (if h < length (heap st)
      then (case heap st ! h of HistogramObj _ _ _ _ storage \<Rightarrow> Some storage | _ \<Rightarrow> None)
      else None)"

text \<open>The histograms that a sequence of registration calls constructs, each with the
  bucket set it is constructed from: a call of \<open>Histogram\<close> constructs one when the
  sanitized name is not registered and the call returns; its bucket set is the
  argument, or the default buckets of the scope when the argument is nil.\<close>

definition effectiveBuckets :: "scope \<Rightarrow> Buckets option \<Rightarrow> Buckets" where
  "effectiveBuckets s b0 = (case b0 of None \<Rightarrow> defaultBuckets s | Some b \<Rightarrow> b)"

fun constructed :: "'a accumulator \<Rightarrow> regcall \<Rightarrow> scope \<times> store \<Rightarrow> (addr \<times> Buckets) list" where
  "constructed ac (CallHistogram n b0) (s, st) =
     (case (fmlookup (histograms s) (Name (sanitizer s) n), fst (Histogram ac s st n b0)) of
        (None, Inr h) \<Rightarrow> [(h, effectiveBuckets s b0)]
      | _ \<Rightarrow> [])"
| "constructed ac _ x = []"

fun creations ::
  "'a accumulator \<Rightarrow> regcall list \<Rightarrow> scope \<times> store \<Rightarrow> (addr \<times> Buckets) list" where
  "creations ac [] x = []"
| "creations ac (c # cs) x = constructed ac c x @ creations ac cs (register ac c x)"

text \<open>A histogram with its bucket set is linked to the cache when the cache has an entry
  for the key of the bucket set and the histogram references the storage of that entry.\<close>

definition linked :: "'a accumulator \<Rightarrow> scope \<Rightarrow> store \<Rightarrow> addr \<times> Buckets \<Rightarrow> bool" where
  "linked ac s st hb =
     (case getBucketsIdentity ac (snd hb) of
        Inl _ \<Rightarrow> False
      | Inr k \<Rightarrow>
         (case fmlookup (bucketCache s) k of
            None \<Rightarrow> False
          | Some storage \<Rightarrow> storageOf st (fst hb) = Some storage))"

text \<open>A later state extends an earlier one when the heap has only grown at its end and
  every entry of the bucket cache is still there.\<close>

definition extends :: "scope \<times> store \<Rightarrow> scope \<times> store \<Rightarrow> bool" where
  "extends x y =
     ((\<exists>xs. heap (snd y) = heap (snd x) @ xs)
      \<and> (\<forall>k v. fmlookup (bucketCache (fst x)) k = Some v
             \<longrightarrow> fmlookup (bucketCache (fst y)) k = Some v))"

section \<open>Concrete inputs\<close>

text \<open>A runtime that visits the keys of a map in the order in which they occur in a fixed
  list.\<close>

definition pickOrder :: "string list \<Rightarrow> rangeOrder" where
  "pickOrder ks K = filter (\<lambda>k. k |\<in>| K) ks"

definition exampleReporter :: reporterObj where
  "exampleReporter = \<lparr>rid = 0, caps = \<lparr>reporting = True, tagging = True\<rparr>, closer = None\<rparr>"

text \<open>An accumulator to run concrete inputs with: an ordered fold from the seed 23.\<close>

definition sampleAccumulator :: "64 word accumulator" where
  "sampleAccumulator = \<lparr>NewAccumulator = 23, AddUint64 = (\<lambda>a u. a * 31 + u),
     AccValue = (\<lambda>a. a)\<rparr>"

definition svcOptions :: ScopeOptions where
  "svcOptions = \<lparr>Tags = None, Prefix = ''svc'', Reporter = Some exampleReporter,
     CachedReporter = None, Separator = ''.'', DefaultBuckets = None,
     SanitizeOptions = None\<rparr>"

text \<open>A push reporter whose closer fails, a cached reporter, and a root scope with one
  registered counter.\<close>

definition failingReporter :: reporterObj where
  "failingReporter = \<lparr>rid = 1, caps = \<lparr>reporting = True, tagging = False\<rparr>,
     closer = Some (Some ''shutdown failed'')\<rparr>"

definition cachingReporter :: reporterObj where
  "cachingReporter = \<lparr>rid = 2, caps = \<lparr>reporting = True, tagging = True\<rparr>,
     closer = None\<rparr>"

definition bothOptions :: ScopeOptions where
  "bothOptions = \<lparr>Tags = None, Prefix = ''svc'', Reporter = Some failingReporter,
     CachedReporter = Some cachingReporter, Separator = [], DefaultBuckets = None,
     SanitizeOptions = None\<rparr>"

definition busyWorld :: world where
  "busyWorld =
     (let w0 = newRootScope (pickOrder [''requests'']) bothOptions 1;
          (c, s, st) = Counter (scopes w0 ! 0) (mem w0) ''requests''
      in w0\<lparr>scopes := [s], mem := st\<rparr>)"

text \<open>A root scope in which the counter \<open>a\<close> is registered before the counter \<open>b\<close>.\<close>

definition abScope :: "scope \<times> store" where
  "abScope =
     (let w0 = newRootScope (pickOrder [''b'', ''a'']) svcOptions 0;
          (a, s, st) = Counter (scopes w0 ! 0) (mem w0) ''a'';
          (b, s, st) = Counter s st ''b''
      in (s, st))"

text \<open>A fresh root scope with its store, and two histograms registered in it: one with
  the duration bucket 0, then one with the value bucket 0.0.\<close>

definition freshRoot :: "scope \<times> store" where
  "freshRoot =
     (let w0 = newRootScope (pickOrder []) svcOptions 0 in (scopes w0 ! 0, mem w0))"

definition mixedHistograms :: "(panic + addr) \<times> (panic + addr) \<times> scope \<times> store" where
  "mixedHistograms =
     (let (s, st) = freshRoot;
          (r1, s, st) = Histogram sampleAccumulator s st ''latency'' (Some (DurationBuckets [0]));
          (r2, s, st) = Histogram sampleAccumulator s st ''size'' (Some (ValueBuckets [0]))
      in (r1, r2, s, st))"

text \<open>Three histograms registered in a fresh root scope: \<open>a\<close> and \<open>c\<close> with the same
  duration buckets, \<open>b\<close> in between with other ones.\<close>

definition abcCalls :: "regcall list" where
  "abcCalls = [CallHistogram ''a'' (Some (DurationBuckets [0, 10000000])),
               CallHistogram ''b'' (Some (DurationBuckets [0, 20000000])),
               CallHistogram ''c'' (Some (DurationBuckets [0, 10000000]))]"

section \<open>Ranging over a map\<close>

lemma set_map_filter_pairs:
  "set (List.map_filter (\<lambda>k. case f k of None \<Rightarrow> None | Some v \<Rightarrow> Some (k, v)) ks)
     = {(k, v). k \<in> set ks \<and> f k = Some v}"
  by (induction ks) (auto simp: List.map_filter_simps split: option.splits)

lemma map_fst_map_filter_pairs:
  "map fst (List.map_filter (\<lambda>k. case f k of None \<Rightarrow> None | Some v \<Rightarrow> Some (k, v)) ks)
     = filter (\<lambda>k. f k \<noteq> None) ks"
  by (induction ks) (auto simp: List.map_filter_simps split: option.splits)

lemma gorange_set:
  assumes "enumerates (ord (fmdom m)) (fmdom m)"
  shows "set (gorange ord m) = {(k, v). fmlookup m k = Some v}"
  using assms
  by (auto simp: gorange_def enumerates_def set_map_filter_pairs fmlookup_dom_iff)

lemma gorange_keys:
  assumes "enumerates (ord (fmdom m)) (fmdom m)"
  shows "map fst (gorange ord m) = ord (fmdom m)"
proof -
  have "\<forall>k \<in> set (ord (fmdom m)). fmlookup m k \<noteq> None"
    using assms by (auto simp: enumerates_def fmlookup_dom_iff)
  then show ?thesis
    by (simp add: gorange_def map_fst_map_filter_pairs)
qed

lemma gorange_distinct:
  assumes "enumerates (ord (fmdom m)) (fmdom m)"
  shows "distinct (map fst (gorange ord m))"
  using assms gorange_keys [of ord m] by (simp add: enumerates_def)

lemma gorange_empty: "gorange ord fmempty = []"
  by (simp add: gorange_def List.map_filter_def)

lemma fold_fmupd_lookup:
  "fmlookup (fold (\<lambda>(k, v) res. fmupd k v res) xs m0) k =
     (case map_of (rev xs) k of Some v \<Rightarrow> Some v | None \<Rightarrow> fmlookup m0 k)"
  by (induction xs arbitrary: m0) (auto split: option.splits simp: map_add_def)

lemma gorange_copy:
  assumes "enumerates (ord (fmdom m)) (fmdom m)"
  shows "fold (\<lambda>(k, v) res. fmupd k v res) (gorange ord m) m0 = m0 ++\<^sub>f m"
proof (rule fmap_ext)
  fix k
  have d: "distinct (map fst (rev (gorange ord m)))"
    using assms gorange_distinct [of ord m] by (simp add: rev_map [symmetric])
  have "map_of (rev (gorange ord m)) k = fmlookup m k"
  proof (cases "fmlookup m k")
    case None
    then have "k \<notin> fst ` set (rev (gorange ord m))"
      using assms gorange_set [of ord m] by auto
    then show ?thesis using None by (simp add: map_of_eq_None_iff)
  next
    case (Some v)
    then have "(k, v) \<in> set (rev (gorange ord m))"
      using assms gorange_set [of ord m] by auto
    then show ?thesis using Some d by simp
  qed
  then show "fmlookup (fold (\<lambda>(k, v) res. fmupd k v res) (gorange ord m) m0) k
      = fmlookup (m0 ++\<^sub>f m) k"
    by (simp add: fold_fmupd_lookup fmlookup_dom_iff split: option.splits)
qed

lemma golen_zero: "golen t = 0 \<longleftrightarrow> gomap t = fmempty"
proof -
  have "fmdom (gomap t) = {||} \<longleftrightarrow> gomap t = fmempty"
    by (metis fmdom_empty fmap_ext fmdom_notD fmempty_lookup fempty_iff)
  then show ?thesis by (simp add: golen_def)
qed

lemma pickOrder_enumerates:
  "distinct ks \<Longrightarrow> fset K \<subseteq> set ks \<Longrightarrow> enumerates (pickOrder ks K) K"
  by (auto simp: enumerates_def pickOrder_def)

section \<open>Tag merging\<close>

lemma mergeRightTags_fmadd:
  assumes "enumerates (ord (fmdom (gomap tagsLeft))) (fmdom (gomap tagsLeft))"
    and "enumerates (ord (fmdom (gomap tagsRight))) (fmdom (gomap tagsRight))"
  shows "gomap (mergeRightTags ord tagsLeft tagsRight) = gomap tagsLeft ++\<^sub>f gomap tagsRight"
  using assms gorange_copy [of ord "gomap tagsLeft" fmempty]
    gorange_copy [of ord "gomap tagsRight" "gomap tagsLeft"]
  by (auto simp: mergeRightTags_def golen_zero Let_def gomap_def)

text \<open>
  Claim C8. For every pair of tag maps (nil ones included) and every order in which the
  runtime enumerates the keys of the two maps, the keys of the result of \<open>mergeRightTags\<close>
  are the keys of the left map together with the keys of the right map, and every key
  of the right map carries the right map's value; a key of the left map alone keeps the
  left value.
\<close>

theorem mergeRightTags_union_right_wins:
  assumes "enumerates (ord (fmdom (gomap tagsLeft))) (fmdom (gomap tagsLeft))"
    and "enumerates (ord (fmdom (gomap tagsRight))) (fmdom (gomap tagsRight))"
  shows "fmdom (gomap (mergeRightTags ord tagsLeft tagsRight))
           = fmdom (gomap tagsLeft) |\<union>| fmdom (gomap tagsRight)
       \<and> (\<forall>k. fmlookup (gomap (mergeRightTags ord tagsLeft tagsRight)) k
               = (case fmlookup (gomap tagsRight) k of
                    Some v \<Rightarrow> Some v
                  | None \<Rightarrow> fmlookup (gomap tagsLeft) k))"
  using mergeRightTags_fmadd [OF assms]
  by (auto simp: fmlookup_dom_iff split: option.splits)

text \<open>The example of the claim: merging \<open>{env: prod}\<close> with \<open>{env: staging, region: us}\<close>
  gives \<open>{env: staging, region: us}\<close>.\<close>

theorem mergeRightTags_union_right_wins_witness:
  "enumerates (pickOrder [''region'', ''env''] {|''env''|}) {|''env''|}
   \<and> enumerates (pickOrder [''region'', ''env''] {|''env'', ''region''|}) {|''env'', ''region''|}
   \<and> gomap (mergeRightTags (pickOrder [''region'', ''env''])
        (Some (fmupd ''env'' ''prod'' fmempty))
        (Some (fmupd ''env'' ''staging'' (fmupd ''region'' ''us'' fmempty))))
     = fmupd ''env'' ''staging'' (fmupd ''region'' ''us'' fmempty)"
proof -
  let ?l = "Some (fmupd ''env'' ''prod'' fmempty)"
  let ?r = "Some (fmupd ''env'' ''staging'' (fmupd ''region'' ''us'' fmempty))"
  let ?ord = "pickOrder [''region'', ''env'']"
  have l: "enumerates (?ord (fmdom (gomap ?l))) (fmdom (gomap ?l))"
    by (simp add: gomap_def enumerates_def pickOrder_def)
  have r: "enumerates (?ord (fmdom (gomap ?r))) (fmdom (gomap ?r))"
    by (auto simp: gomap_def enumerates_def pickOrder_def)
  have "\<forall>k. fmlookup (gomap (mergeRightTags ?ord ?l ?r)) k = fmlookup (gomap ?r) k"
    using mergeRightTags_union_right_wins [OF l r]
    by (simp add: gomap_def split: option.splits)
  then have "gomap (mergeRightTags ?ord ?l ?r) = gomap ?r"
    by (intro fmap_ext) simp
  then show ?thesis using l r by (simp add: gomap_def)
qed

section \<open>Naming\<close>

text \<open>
  Claim C7. \<open>fullyQualifiedName\<close> returns the name unchanged when the prefix of the scope
  is empty and the concatenation of prefix, separator and name otherwise, whatever the
  three strings are. In particular: a root scope is built with prefix \<open>svc\<close> and
  separator \<open>.\<close>; \<open>SubScope\<close> with \<open>db\<close> yields a second scope whose prefix is \<open>svc.db\<close>;
  the counter \<open>queries\<close> is registered there; a \<open>report\<close> sweep of that scope invokes the
  counter's report method once, with the name \<open>svc.db.queries\<close>.
\<close>

theorem fullyQualifiedName_concat:
  "fullyQualifiedName s name
     = (if prefix s = [] then name else prefix s @ separator s @ name)
   \<and> (let ord = pickOrder [''queries''];
          w0 = newRootScope ord svcOptions 0;
          (i, w1) = SubScope ord w0 (scopes w0 ! 0) ''db'';
          sub = scopes w1 ! i;
          (c, sub, st) = Counter sub (mem w1) ''queries''
      in i = 1 \<and> prefix sub = ''svc.db''
         \<and> fullyQualifiedName sub ''queries'' = ''svc.db.queries''
         \<and> trace (report ord sub exampleReporter st)
             = trace st @ [RLock CM,
                 CounterReport c ''svc.db.queries'' (Some fmempty) exampleReporter,
                 RUnlock CM, RLock GM, RUnlock GM, RLock HM, RUnlock HM])"
  by (simp add: fullyQualifiedName_def newRootScope_def svcOptions_def SubScope_def
      subscope_def registry_Subscope_def mergeRightTags_def copyAndSanitizeMap_def
      gorange_def pickOrder_def List.map_filter_def gomap_def golen_def
      NewNoOpSanitizer_def Counter_def counter_def emit_def alloc_def report_def
      Let_def)

section \<open>Traces\<close>

lemma emits_Nil: "emits [] st = st"
  by (simp add: emits_def)

lemma emit_emits: "emit e st = emits [e] st"
  by (simp add: emit_def emits_def)

lemma emits_emits: "emits es (emits ds st) = emits (ds @ es) st"
  by (simp add: emits_def)

lemma fold_emit: "fold (\<lambda>x. emit (f x)) xs st = emits (map f xs) st"
  by (induction xs arbitrary: st) (simp_all add: emits_Nil emit_emits emits_emits)

lemma case_prod_emit:
  "(\<lambda>(a, b). emit (f a b)) = (\<lambda>x. emit (case x of (a, b) \<Rightarrow> f a b))"
  by (auto simp: fun_eq_iff)

lemma report_emits: "report ord s r st = emits (reportEvents ord s r) st"
  by (simp add: report_def reportEvents_def Let_def case_prod_emit fold_emit emit_emits
      emits_emits)

lemma cachedReport_emits: "cachedReport s st = emits (cachedReportEvents s) st"
  by (simp add: cachedReport_def cachedReportEvents_def Let_def fold_emit emit_emits
      emits_emits)

lemma fold_emits: "fold (\<lambda>x. emits (f x)) xs st = emits (concat (map f xs)) st"
  by (induction xs arbitrary: st) (simp_all add: emits_Nil emits_emits)

lemma emitW_emitsW: "emitW e w = emitsW [e] w"
  by (simp add: emitW_def emitsW_def emit_emits)

lemma emitsW_emitsW: "emitsW es (emitsW ds w) = emitsW (ds @ es) w"
  by (simp add: emitsW_def emits_emits)

lemma emitsW_Nil: "emitsW [] w = w"
  by (simp add: emitsW_def emits_Nil)

lemma scopes_emitsW: "scopes (emitsW es w) = scopes w"
  by (simp add: emitsW_def)

lemma emitsW_scopes_update:
  "emitsW es (w\<lparr>scopes := ss\<rparr>) = (emitsW es w)\<lparr>scopes := ss\<rparr>"
  by (simp add: emitsW_def)

lemma registry_Report_emits:
  "registry_Report ord w r = emitsW (concat (map (\<lambda>x. reportEvents ord x r) (scopes w))) w"
proof -
  have eq: "(\<lambda>s. report ord s r) = (\<lambda>x. emits (reportEvents ord x r))"
    by (simp add: fun_eq_iff report_emits)
  show ?thesis
    by (simp add: registry_Report_def eq fold_emits emitsW_def)
qed

lemma registry_CachedReport_emits:
  "registry_CachedReport w = emitsW (concat (map cachedReportEvents (scopes w))) w"
proof -
  have eq: "cachedReport = (\<lambda>x. emits (cachedReportEvents x))"
    by (simp add: fun_eq_iff cachedReport_emits)
  show ?thesis
    by (simp add: registry_CachedReport_def eq fold_emits emitsW_def)
qed

lemma reportRegistryWithLock_emits:
  "reportRegistryWithLock ord s w = emitsW (passEvents ord s (scopes w)) w"
  by (simp add: reportRegistryWithLock_def passEvents_def pushPass_def cachedPass_def
      registry_Report_emits registry_CachedReport_emits emitW_emitsW emitsW_emitsW
      emitsW_Nil split: option.splits)

lemma reportLoopRun_emits:
  "reportLoopRun ord s w =
     emitsW ([RLock StatusMu] @ (if closed s then [] else passEvents ord s (scopes w))
             @ [RUnlock StatusMu]) w"
  by (simp add: reportLoopRun_def Let_def reportRegistryWithLock_emits emitW_emitsW
      emitsW_emitsW scopes_emitsW)

lemma Close_closed:
  "closed (scopes w ! i) \<Longrightarrow>
     Close ord i w = (Inr None, emitsW [Lock StatusMu, Unlock StatusMu] w)"
  by (simp add: Close_def Let_def emitW_emitsW emitsW_emitsW scopes_emitsW)

lemma Close_open:
  assumes "\<not> closed (scopes w ! i)" and "quit (scopes w ! i) = OpenChan"
  shows "Close ord i w =
     (let s = (scopes w ! i)\<lparr>closed := True, quit := ClosedChan\<rparr>;
          ss = (scopes w)[i := s]
      in (Inr (closerResult (baseReporter s)),
          emitsW ([Lock StatusMu] @ passEvents ord s ss @ closerEvents (baseReporter s)
                  @ [Unlock StatusMu]) (w\<lparr>scopes := ss\<rparr>)))"
  using assms
  by (simp add: Close_def Let_def emitW_emitsW emitsW_emitsW scopes_emitsW
      reportRegistryWithLock_emits closerResult_def closerEvents_def emitsW_scopes_update
      split: option.splits)

lemma Close_result:
  "fst (Close ord i w) =
     (let s = scopes w ! i
      in if closed s then Inr None
         else case quit s of
                NilChan \<Rightarrow> Inl CloseOfNilChannel
              | ClosedChan \<Rightarrow> Inl CloseOfClosedChannel
              | OpenChan \<Rightarrow> Inr (closerResult (baseReporter s)))"
  by (simp add: Close_def Let_def emitW_emitsW scopes_emitsW closerResult_def
      split: option.splits chan.splits)

lemma filter_isFlush_reportEvents: "filter isFlush (reportEvents ord s r) = []"
  by (auto simp: reportEvents_def filter_empty_conv)

lemma filter_isFlush_cachedReportEvents: "filter isFlush (cachedReportEvents s) = []"
  by (auto simp: cachedReportEvents_def filter_empty_conv)

lemma flushes_passEvents:
  "length (filter isFlush (passEvents ord s ss)) =
     (if reporter s = None \<and> cachedReporter s = None then 0 else 1)"
  by (auto simp: passEvents_def pushPass_def cachedPass_def filter_concat
      filter_isFlush_reportEvents filter_isFlush_cachedReportEvents o_def
      split: option.splits)


lemma newRootScope_root:
  "scopes (newRootScope ord opts interval) ! 0 =
     (scopes (newRootScope ord opts interval) ! 0)\<lparr>reporter := Reporter opts,
        cachedReporter := CachedReporter opts,
        baseReporter := (case Reporter opts of Some r \<Rightarrow> Some r | None \<Rightarrow> CachedReporter opts),
        closed := False, quit := OpenChan\<rparr>"
  by (simp add: newRootScope_def Let_def split: option.splits)

lemma newRootScope_fields:
  "reporter (scopes (newRootScope ord opts interval) ! 0) = Reporter opts"
  "cachedReporter (scopes (newRootScope ord opts interval) ! 0) = CachedReporter opts"
  "baseReporter (scopes (newRootScope ord opts interval) ! 0)
     = (case Reporter opts of Some r \<Rightarrow> Some r | None \<Rightarrow> CachedReporter opts)"
  "closed (scopes (newRootScope ord opts interval) ! 0) = False"
  "quit (scopes (newRootScope ord opts interval) ! 0) = OpenChan"
  "length (scopes (newRootScope ord opts interval)) = 1"
  by (simp_all add: newRootScope_def Let_def split: option.splits)

section \<open>Ticks and shutdown\<close>

text \<open>
  Claim C3. When the \<open>closed\<close> flag of the scope is set, \<open>reportLoopRun\<close> takes and
  releases the read lock of the status and does nothing else: the scopes and the heap
  are unchanged and the trace gains the two lock events only, so neither the fan-out of
  the registry nor a method of a reporter is invoked.
\<close>

theorem reportLoopRun_after_close:
  assumes "closed s"
  shows "reportLoopRun ord s w
           = w\<lparr>mem := (mem w)\<lparr>trace := trace (mem w) @ [RLock StatusMu, RUnlock StatusMu]\<rparr>\<rparr>"
  using assms by (simp add: reportLoopRun_emits emitsW_def emits_def)

text \<open>
  Claim C2. On a scope that is not closed and whose \<open>quit\<close> channel is open, \<open>Close\<close>
  sets \<open>closed\<close>, closes the channel, runs one pass of \<open>reportRegistryWithLock\<close> (one
  flush when a reporter is configured), calls the closer of the base reporter when it has
  one and returns its result. In the resulting world, and in every later world where the
  flag is still set, \<open>Close\<close> returns nil, takes and releases the status lock and changes
  nothing else; in particular it leaves the flag set.
\<close>

theorem Close_idempotent:
  assumes "i < length (scopes w)"
    and "\<not> closed (scopes w ! i)"
    and "quit (scopes w ! i) = OpenChan"
  shows "let s' = (scopes w ! i)\<lparr>closed := True, quit := ClosedChan\<rparr>;
             ss = (scopes w)[i := s'];
             first = [Lock StatusMu] @ passEvents ord s' ss
                     @ closerEvents (baseReporter s') @ [Unlock StatusMu];
             w1 = emitsW first (w\<lparr>scopes := ss\<rparr>)
         in Close ord i w = (Inr (closerResult (baseReporter (scopes w ! i))), w1)
            \<and> length (filter isFlush first)
                = (if reporter s' = None \<and> cachedReporter s' = None then 0 else 1)
            \<and> closed (scopes w1 ! i) \<and> quit (scopes w1 ! i) = ClosedChan
            \<and> (\<forall>w'. closed (scopes w' ! i) \<longrightarrow>
                  Close ord i w' = (Inr None, emitsW [Lock StatusMu, Unlock StatusMu] w')
                  \<and> scopes (emitsW [Lock StatusMu, Unlock StatusMu] w') = scopes w')"
  using assms
  by (simp add: Close_open Close_closed Let_def flushes_passEvents scopes_emitsW
      closerEvents_def split: option.splits)

text \<open>
  Claim C9. The result of \<open>Close\<close> is determined as follows: nil on a closed scope; on an
  open one the error returned by the closer of the base reporter, as it is, and nil when
  the base reporter has no closer or is absent. No other step contributes an error; the
  only other outcomes are the panics of closing a nil or closed channel, which a root
  scope never reaches. For the root scope that \<open>newRootScope\<close> builds, the first \<open>Close\<close>
  returns the closer's result of the push reporter, else of the cached reporter, else nil.
\<close>

theorem Close_error_from_closer_only:
  "fst (Close ord i w) =
     (let s = scopes w ! i
      in if closed s then Inr None
         else case quit s of
                NilChan \<Rightarrow> Inl CloseOfNilChannel
              | ClosedChan \<Rightarrow> Inl CloseOfClosedChannel
              | OpenChan \<Rightarrow>
                 Inr (case baseReporter s of
                        None \<Rightarrow> None
                      | Some b \<Rightarrow> (case closer b of None \<Rightarrow> None | Some err \<Rightarrow> err)))
   \<and> fst (Close ord 0 (newRootScope ord opts interval)) =
       Inr (case Reporter opts of
              Some r \<Rightarrow> (case closer r of None \<Rightarrow> None | Some err \<Rightarrow> err)
            | None \<Rightarrow>
               (case CachedReporter opts of
                  Some cr \<Rightarrow> (case closer cr of None \<Rightarrow> None | Some err \<Rightarrow> err)
                | None \<Rightarrow> None))"
  by (auto simp: Close_result newRootScope_fields Let_def closerResult_def
      split: option.splits chan.splits)


lemma busyWorld_eval:
  "busyWorld = \<lparr>scopes = [\<lparr>separator = ''.'', prefix = ''svc'', tags = Some fmempty,
       reporter = Some failingReporter, cachedReporter = Some cachingReporter,
       baseReporter = Some failingReporter, defaultBuckets = defaultScopeBuckets,
       sanitizer = NewNoOpSanitizer, closed = False, quit = OpenChan,
       counters = fmupd ''requests'' 0 fmempty, countersSlice = [0],
       gauges = fmempty, gaugesSlice = [], histograms = fmempty, histogramsSlice = [],
       timers = fmempty, bucketCache = fmempty\<rparr>],
     mem = \<lparr>heap = [CounterObj (Some 3)],
            trace = [RLock CM, RUnlock CM, Lock CM,
                     AllocateCounter cachingReporter ''svc.requests'' (Some fmempty),
                     Unlock CM]\<rparr>,
     reportLoopStarted = True\<rparr>"
  by (simp add: busyWorld_def newRootScope_def bothOptions_def Counter_def counter_def
      Let_def emit_def alloc_def allocateHandle_def copyAndSanitizeMap_def gorange_def
      List.map_filter_def gomap_def NewNoOpSanitizer_def DefaultSeparator_def
      fullyQualifiedName_def)

theorem Close_idempotent_witness:
  "0 < length (scopes busyWorld) \<and> \<not> closed (scopes busyWorld ! 0)
   \<and> quit (scopes busyWorld ! 0) = OpenChan
   \<and> fst (Close (pickOrder [''requests'']) 0 busyWorld) = Inr (Some ''shutdown failed'')
   \<and> trace (mem (snd (Close (pickOrder [''requests'']) 0 busyWorld)))
       = trace (mem busyWorld)
         @ [Lock StatusMu, RLock CM,
            CounterReport 0 ''svc.requests'' (Some fmempty) failingReporter,
            RUnlock CM, RLock GM, RUnlock GM, RLock HM, RUnlock HM,
            ReporterFlush failingReporter, CloserClose failingReporter, Unlock StatusMu]
   \<and> Close (pickOrder [''requests'']) 0 (snd (Close (pickOrder [''requests'']) 0 busyWorld))
       = (Inr None, emitsW [Lock StatusMu, Unlock StatusMu]
            (snd (Close (pickOrder [''requests'']) 0 busyWorld)))"
proof -
  have a: "0 < length (scopes busyWorld)" "\<not> closed (scopes busyWorld ! 0)"
    "quit (scopes busyWorld ! 0) = OpenChan"
    by (simp_all add: busyWorld_eval)
  show ?thesis
    using a Close_idempotent [OF a, of "pickOrder [''requests'']"]
    by (simp add: Let_def busyWorld_eval closerResult_def closerEvents_def
        failingReporter_def passEvents_def pushPass_def reportEvents_def
        gorange_def pickOrder_def List.map_filter_def fullyQualifiedName_def
        emitsW_def emits_def)
qed

theorem reportLoopRun_after_close_witness:
  "closed (scopes (snd (Close (pickOrder [''requests'']) 0 busyWorld)) ! 0)
   \<and> trace (mem (reportLoopRun (pickOrder [''requests''])
        (scopes (snd (Close (pickOrder [''requests'']) 0 busyWorld)) ! 0)
        (snd (Close (pickOrder [''requests'']) 0 busyWorld))))
     = trace (mem (snd (Close (pickOrder [''requests'']) 0 busyWorld)))
       @ [RLock StatusMu, RUnlock StatusMu]"
proof -
  let ?w = "snd (Close (pickOrder [''requests'']) 0 busyWorld)"
  have c: "closed (scopes ?w ! 0)"
    by (simp add: Close_def Let_def busyWorld_eval emitW_def
        reportRegistryWithLock_def registry_Report_def failingReporter_def)
  show ?thesis
    using c reportLoopRun_after_close [OF c, of "pickOrder [''requests'']" ?w]
    by simp
qed


lemma abScope_eval:
  "abScope = (\<lparr>separator = ''.'', prefix = ''svc'', tags = Some fmempty,
       reporter = Some exampleReporter, cachedReporter = None,
       baseReporter = Some exampleReporter, defaultBuckets = defaultScopeBuckets,
       sanitizer = NewNoOpSanitizer, closed = False, quit = OpenChan,
       counters = fmupd ''b'' 1 (fmupd ''a'' 0 fmempty), countersSlice = [0, 1],
       gauges = fmempty, gaugesSlice = [], histograms = fmempty, histogramsSlice = [],
       timers = fmempty, bucketCache = fmempty\<rparr>,
     \<lparr>heap = [CounterObj None, CounterObj None],
      trace = [RLock CM, RUnlock CM, Lock CM, Unlock CM,
               RLock CM, RUnlock CM, Lock CM, Unlock CM]\<rparr>)"
  by (simp add: abScope_def newRootScope_def svcOptions_def Counter_def counter_def
      Let_def emit_def alloc_def copyAndSanitizeMap_def gorange_def
      List.map_filter_def gomap_def NewNoOpSanitizer_def)

section \<open>Reporting sweeps\<close>

text \<open>
  Claim C5 as stated fails for \<open>report\<close>: it ranges over the map, not over the slice. In
  a root scope where \<open>a\<close> is registered before \<open>b\<close>, a runtime that enumerates the keys
  of the map as \<open>b, a\<close> makes \<open>report\<close> invoke the counters in the order opposite to their
  registration. It also fails for \<open>cachedReport\<close>, whose invocations carry neither a name
  nor tags.
\<close>

theorem report_registration_order_counterexample:
  "countersSlice (fst abScope) = [0, 1]
   \<and> enumerates (pickOrder [''b'', ''a''] (fmdom (counters (fst abScope))))
        (fmdom (counters (fst abScope)))
   \<and> reportedCounters (drop (length (trace (snd abScope)))
        (trace (report (pickOrder [''b'', ''a'']) (fst abScope) exampleReporter (snd abScope))))
      = [1, 0]
   \<and> reportedCounters (drop (length (trace (snd abScope)))
        (trace (report (pickOrder [''b'', ''a'']) (fst abScope) exampleReporter (snd abScope))))
      \<noteq> countersSlice (fst abScope)
   \<and> trace (cachedReport (fst abScope) (snd abScope))
      = trace (snd abScope)
        @ [RLock CM, CounterCachedReport 0, CounterCachedReport 1, RUnlock CM,
           RLock GM, RUnlock GM, RLock HM, RUnlock HM]"
  by (simp add: abScope_eval report_def cachedReport_def Let_def emit_def gorange_def
      pickOrder_def List.map_filter_def enumerates_def reportedCounters_def)

text \<open>
  Claim C5, amended. \<open>cachedReport\<close> sweeps the three slices, each under the read lock of
  its kind, and invokes the argumentless \<open>cachedReport\<close> method of every counter, gauge
  and histogram in registration order. \<open>report\<close> ranges over the three maps, each under
  the read lock of its kind, and invokes \<open>report\<close> of every instance with the
  fully-qualified name of its key, the tags of the scope and the reporter, in the order
  in which the runtime enumerates the keys; when that enumeration lists every key once,
  every entry of the map is visited exactly once. Neither function touches the timers.
\<close>

theorem sweeps_report_each_instance_once:
  "cachedReport s st
     = st\<lparr>trace := trace st
          @ [RLock CM] @ map CounterCachedReport (countersSlice s)
          @ [RUnlock CM, RLock GM] @ map GaugeCachedReport (gaugesSlice s)
          @ [RUnlock GM, RLock HM] @ map HistogramCachedReport (histogramsSlice s)
          @ [RUnlock HM]\<rparr>
   \<and> report ord s r st
     = st\<lparr>trace := trace st
          @ [RLock CM]
          @ map (\<lambda>(name, c). CounterReport c (fullyQualifiedName s name) (tags s) r)
              (gorange ord (counters s))
          @ [RUnlock CM, RLock GM]
          @ map (\<lambda>(name, g). GaugeReport g (fullyQualifiedName s name) (tags s) r)
              (gorange ord (gauges s))
          @ [RUnlock GM, RLock HM]
          @ map (\<lambda>(name, h). HistogramReport h (fullyQualifiedName s name) (tags s) r)
              (gorange ord (histograms s))
          @ [RUnlock HM]\<rparr>
   \<and> (\<forall>m :: (string, addr) fmap. enumerates (ord (fmdom m)) (fmdom m) \<longrightarrow>
         distinct (map fst (gorange ord m))
         \<and> set (gorange ord m) = {(name, x). fmlookup m name = Some x})"
  by (simp add: report_emits cachedReport_emits emits_def reportEvents_def
      cachedReportEvents_def gorange_distinct gorange_set)

theorem sweeps_report_each_instance_once_witness:
  "enumerates (pickOrder [''b'', ''a''] (fmdom (counters (fst abScope))))
        (fmdom (counters (fst abScope)))
   \<and> trace (report (pickOrder [''b'', ''a'']) (fst abScope) exampleReporter (snd abScope))
     = trace (snd abScope)
       @ [RLock CM, CounterReport 1 ''svc.b'' (Some fmempty) exampleReporter,
          CounterReport 0 ''svc.a'' (Some fmempty) exampleReporter,
          RUnlock CM, RLock GM, RUnlock GM, RLock HM, RUnlock HM]
   \<and> trace (cachedReport (fst abScope) (snd abScope))
     = trace (snd abScope)
       @ [RLock CM, CounterCachedReport 0, CounterCachedReport 1,
          RUnlock CM, RLock GM, RUnlock GM, RLock HM, RUnlock HM]
   \<and> distinct (map fst (gorange (pickOrder [''b'', ''a'']) (counters (fst abScope))))"
proof -
  let ?ord = "pickOrder [''b'', ''a'']"
  have e: "enumerates (?ord (fmdom (counters (fst abScope)))) (fmdom (counters (fst abScope)))"
    by (simp add: abScope_eval enumerates_def pickOrder_def)
  show ?thesis
    using e sweeps_report_each_instance_once
      [of "fst abScope" "snd abScope" ?ord exampleReporter]
    by (simp add: abScope_eval gorange_def pickOrder_def List.map_filter_def
        fullyQualifiedName_def)
qed

section \<open>Registration\<close>

lemma Counter_hit:
  "fmlookup (counters s) (Name (sanitizer s) n) = Some c \<Longrightarrow>
     Counter s st n = (c, s, emits [RLock CM, RUnlock CM] st)"
  by (simp add: Counter_def counter_def Let_def emit_def emits_def)

lemma Counter_miss:
  "fmlookup (counters s) (Name (sanitizer s) n) = None \<Longrightarrow>
     Counter s st n =
       (length (heap st),
        s\<lparr>counters := fmupd (Name (sanitizer s) n) (length (heap st)) (counters s),
          countersSlice := countersSlice s @ [length (heap st)]\<rparr>,
        \<lparr>heap = heap st @ [CounterObj (case cachedReporter s of None \<Rightarrow> None
                                       | Some cr \<Rightarrow> Some (length (trace st) + 3))],
         trace = trace st @ [RLock CM, RUnlock CM, Lock CM]
           @ (case cachedReporter s of None \<Rightarrow> []
              | Some cr \<Rightarrow> [AllocateCounter cr
                   (fullyQualifiedName s (Name (sanitizer s) n)) (tags s)])
           @ [Unlock CM]\<rparr>)"
  by (simp add: Counter_def counter_def Let_def emit_def alloc_def allocateHandle_def
      split: option.splits)

lemma Gauge_hit:
  "fmlookup (gauges s) (Name (sanitizer s) n) = Some g \<Longrightarrow>
     Gauge s st n = (g, s, emits [RLock GM, RUnlock GM] st)"
  by (simp add: Gauge_def gauge_def Let_def emit_def emits_def)

lemma Gauge_miss:
  "fmlookup (gauges s) (Name (sanitizer s) n) = None \<Longrightarrow>
     Gauge s st n =
       (length (heap st),
        s\<lparr>gauges := fmupd (Name (sanitizer s) n) (length (heap st)) (gauges s),
          gaugesSlice := gaugesSlice s @ [length (heap st)]\<rparr>,
        \<lparr>heap = heap st @ [GaugeObj (case cachedReporter s of None \<Rightarrow> None
                                     | Some cr \<Rightarrow> Some (length (trace st) + 3))],
         trace = trace st @ [RLock GM, RUnlock GM, Lock GM]
           @ (case cachedReporter s of None \<Rightarrow> []
              | Some cr \<Rightarrow> [AllocateGauge cr
                   (fullyQualifiedName s (Name (sanitizer s) n)) (tags s)])
           @ [Unlock GM]\<rparr>)"
  by (simp add: Gauge_def gauge_def Let_def emit_def alloc_def allocateHandle_def
      split: option.splits)

lemma Timer_hit:
  "fmlookup (timers s) (Name (sanitizer s) n) = Some t \<Longrightarrow>
     Timer s st n = (t, s, emits [RLock TM, RUnlock TM] st)"
  by (simp add: Timer_def timer_def Let_def emit_def emits_def)

lemma Timer_miss:
  "fmlookup (timers s) (Name (sanitizer s) n) = None \<Longrightarrow>
     Timer s st n =
       (length (heap st),
        s\<lparr>timers := fmupd (Name (sanitizer s) n) (length (heap st)) (timers s)\<rparr>,
        \<lparr>heap = heap st @ [TimerObj (fullyQualifiedName s (Name (sanitizer s) n)) (tags s)
                             (reporter s)
                             (case cachedReporter s of None \<Rightarrow> None
                              | Some cr \<Rightarrow> Some (length (trace st) + 3))],
         trace = trace st @ [RLock TM, RUnlock TM, Lock TM]
           @ (case cachedReporter s of None \<Rightarrow> []
              | Some cr \<Rightarrow> [AllocateTimer cr
                   (fullyQualifiedName s (Name (sanitizer s) n)) (tags s)])
           @ [Unlock TM]\<rparr>)"
  by (simp add: Timer_def timer_def Let_def emit_def alloc_def allocateHandle_def
      split: option.splits)

lemma Histogram_hit:
  "fmlookup (histograms s) (Name (sanitizer s) n) = Some h \<Longrightarrow>
     Histogram ac s st n b0 = (Inr h, s, emits [RLock HM, RUnlock HM] st)"
  by (simp add: Histogram_def histogram_def Let_def emit_def emits_def)

lemma Histogram_miss:
  assumes "fmlookup (histograms s) (Name (sanitizer s) n) = None"
  shows "Histogram ac s st n b0 =
     (let name = Name (sanitizer s) n;
          b = (case b0 of None \<Rightarrow> defaultBuckets s | Some b \<Rightarrow> b);
          cachedHistogram = (case cachedReporter s of None \<Rightarrow> None
                             | Some cr \<Rightarrow> Some (length (trace st) + 3));
          tr = trace st @ [RLock HM, RUnlock HM, Lock HM]
                 @ (case cachedReporter s of None \<Rightarrow> []
                    | Some cr \<Rightarrow> [AllocateHistogram cr (fullyQualifiedName s name) (tags s) b])
                 @ [Unlock HM];
          a = length (heap st)
      in case getBucketsIdentity ac b of
           Inl p \<Rightarrow> (Inl p, s, \<lparr>heap = heap st, trace = tr\<rparr>)
         | Inr bid \<Rightarrow>
            (case fmlookup (bucketCache s) bid of
               Some storage \<Rightarrow>
                 (Inr a,
                  s\<lparr>histograms := fmupd name a (histograms s),
                    histogramsSlice := histogramsSlice s @ [a]\<rparr>,
                  \<lparr>heap = heap st @ [HistogramObj (htypeOf b) (fullyQualifiedName s name)
                                       (tags s) (reporter s) storage],
                   trace = tr\<rparr>)
             | None \<Rightarrow>
                 (Inr (Suc a),
                  s\<lparr>bucketCache := fmupd bid a (bucketCache s),
                    histograms := fmupd name (Suc a) (histograms s),
                    histogramsSlice := histogramsSlice s @ [Suc a]\<rparr>,
                  \<lparr>heap = heap st @ [StorageObj (htypeOf b) b cachedHistogram,
                                     HistogramObj (htypeOf b) (fullyQualifiedName s name)
                                       (tags s) (reporter s) a],
                   trace = tr\<rparr>)))"
  using assms
  by (simp add: Histogram_def histogram_def Let_def emit_def alloc_def allocateHandle_def
      htypeOf_def fullyQualifiedName_def split: option.splits sum.splits)


lemma fmran_fmupd_fresh:
  assumes "fmlookup m k = None"
  shows "fmran (fmupd k v m) = finsert v (fmran m)"
proof (rule fset_eqI)
  fix y
  show "y |\<in>| fmran (fmupd k v m) \<longleftrightarrow> y |\<in>| finsert v (fmran m)"
  proof
    assume "y |\<in>| fmran (fmupd k v m)"
    then obtain x where "fmlookup (fmupd k v m) x = Some y"
      by (auto simp: fmlookup_ran_iff)
    then show "y |\<in>| finsert v (fmran m)"
      by (cases "k = x") (auto simp: fmlookup_ran_iff)
  next
    assume "y |\<in>| finsert v (fmran m)"
    then consider "y = v" | x where "fmlookup m x = Some y"
      by (auto simp: fmlookup_ran_iff)
    then show "y |\<in>| fmran (fmupd k v m)"
    proof cases
      case 1
      have "fmlookup (fmupd k v m) k = Some y" using 1 by simp
      then show ?thesis by (rule fmranI)
    next
      case 2
      then have "x \<noteq> k" using assms by auto
      then have "fmlookup (fmupd k v m) x = Some y" using 2 by simp
      then show ?thesis by (rule fmranI)
    qed
  qed
qed

lemma fcard_fmdom_fresh:
  "fmlookup m k = None \<Longrightarrow> fcard (finsert k (fmdom m)) = Suc (fcard (fmdom m))"
  by (simp add: fcard_finsert_disjoint fmdom_notI)

lemma oneInstance_Suc:
  "oneInstancePerName m xs n \<Longrightarrow> oneInstancePerName m xs (Suc n)"
  by (auto simp: oneInstancePerName_def list_all_iff)

lemma oneInstance_insert:
  assumes "oneInstancePerName m xs n" and "fmlookup m k = None"
  shows "oneInstancePerName (fmupd k n m) (xs @ [n]) (Suc n)"
proof -
  have "n \<notin> set xs"
    using assms(1) by (auto simp: oneInstancePerName_def list_all_iff)
  then show ?thesis
    using assms
    by (auto simp: oneInstancePerName_def list_all_iff fmran_fmupd_fresh fcard_fmdom_fresh
        sorted_wrt_append)
qed

lemma injectiveMap_Suc:
  "injectiveMap m n \<Longrightarrow> injectiveMap m (Suc n)"
  by (auto simp: injectiveMap_def list_all_iff)

lemma injectiveMap_insert:
  assumes "injectiveMap m n" and "fmlookup m k = None"
  shows "injectiveMap (fmupd k n m) (Suc n)"
proof -
  have "n |\<notin>| fmran m"
    using assms(1) by (auto simp: injectiveMap_def list_all_iff)
  then show ?thesis
    using assms
    by (auto simp: injectiveMap_def list_all_iff fmran_fmupd_fresh fcard_fmdom_fresh
        fcard_finsert_disjoint)
qed

lemmas inv_steps = oneInstance_Suc oneInstance_insert injectiveMap_Suc injectiveMap_insert

lemma Counter_invariant:
  assumes "registryInvariant s st"
  shows "registryInvariant (fst (snd (Counter s st n))) (snd (snd (Counter s st n)))"
proof (cases "fmlookup (counters s) (Name (sanitizer s) n)")
  case None
  show ?thesis
    using assms None
    by (simp add: Counter_miss [OF None] registryInvariant_def inv_steps)
next
  case (Some c)
  show ?thesis
    using assms
    by (simp add: Counter_hit [OF Some] registryInvariant_def emits_def)
qed

lemma Gauge_invariant:
  assumes "registryInvariant s st"
  shows "registryInvariant (fst (snd (Gauge s st n))) (snd (snd (Gauge s st n)))"
proof (cases "fmlookup (gauges s) (Name (sanitizer s) n)")
  case None
  show ?thesis
    using assms None
    by (simp add: Gauge_miss [OF None] registryInvariant_def inv_steps)
next
  case (Some c)
  show ?thesis
    using assms
    by (simp add: Gauge_hit [OF Some] registryInvariant_def emits_def)
qed

lemma Timer_invariant:
  assumes "registryInvariant s st"
  shows "registryInvariant (fst (snd (Timer s st n))) (snd (snd (Timer s st n)))"
proof (cases "fmlookup (timers s) (Name (sanitizer s) n)")
  case None
  show ?thesis
    using assms None
    by (simp add: Timer_miss [OF None] registryInvariant_def inv_steps)
next
  case (Some c)
  show ?thesis
    using assms
    by (simp add: Timer_hit [OF Some] registryInvariant_def emits_def)
qed

lemma Histogram_invariant:
  assumes "registryInvariant s st"
  shows "registryInvariant (fst (snd (Histogram ac s st n b0)))
           (snd (snd (Histogram ac s st n b0)))"
proof (cases "fmlookup (histograms s) (Name (sanitizer s) n)")
  case None
  show ?thesis
    using assms None
    by (simp add: Histogram_miss [OF None] Let_def registryInvariant_def inv_steps
        split: sum.splits option.splits)
next
  case (Some c)
  show ?thesis
    using assms
    by (simp add: Histogram_hit [OF Some] registryInvariant_def emits_def)
qed


lemma keepsInstances_refl: "keepsInstances s s"
  by (simp add: keepsInstances_def)

lemma keepsInstances_trans:
  "keepsInstances s s' \<Longrightarrow> keepsInstances s' s'' \<Longrightarrow> keepsInstances s s''"
  by (simp add: keepsInstances_def)

lemma Counter_keeps: "keepsInstances s (fst (snd (Counter s st n)))"
  by (cases "fmlookup (counters s) (Name (sanitizer s) n)")
    (auto simp: Counter_miss Counter_hit keepsInstances_def)

lemma Gauge_keeps: "keepsInstances s (fst (snd (Gauge s st n)))"
  by (cases "fmlookup (gauges s) (Name (sanitizer s) n)")
    (auto simp: Gauge_miss Gauge_hit keepsInstances_def)

lemma Timer_keeps: "keepsInstances s (fst (snd (Timer s st n)))"
  by (cases "fmlookup (timers s) (Name (sanitizer s) n)")
    (auto simp: Timer_miss Timer_hit keepsInstances_def)

lemma Histogram_keeps: "keepsInstances s (fst (snd (Histogram ac s st n b0)))"
  by (cases "fmlookup (histograms s) (Name (sanitizer s) n)")
    (auto simp: Histogram_miss Histogram_hit keepsInstances_def Let_def
      split: sum.splits option.splits)

lemma Counter_registers:
  "fmlookup (counters (fst (snd (Counter s st n)))) (Name (sanitizer s) n)
     = Some (fst (Counter s st n))"
  by (cases "fmlookup (counters s) (Name (sanitizer s) n)")
    (simp_all add: Counter_miss Counter_hit)

lemma Gauge_registers:
  "fmlookup (gauges (fst (snd (Gauge s st n)))) (Name (sanitizer s) n)
     = Some (fst (Gauge s st n))"
  by (cases "fmlookup (gauges s) (Name (sanitizer s) n)")
    (simp_all add: Gauge_miss Gauge_hit)

lemma Timer_registers:
  "fmlookup (timers (fst (snd (Timer s st n)))) (Name (sanitizer s) n)
     = Some (fst (Timer s st n))"
  by (cases "fmlookup (timers s) (Name (sanitizer s) n)")
    (simp_all add: Timer_miss Timer_hit)

lemma Histogram_registers:
  "fst (Histogram ac s st n b0) = Inr h \<Longrightarrow>
     fmlookup (histograms (fst (snd (Histogram ac s st n b0)))) (Name (sanitizer s) n) = Some h"
  by (cases "fmlookup (histograms s) (Name (sanitizer s) n)")
    (auto simp: Histogram_miss Histogram_hit Let_def split: sum.splits option.splits)

lemma register_step:
  assumes "registryInvariant s st"
  shows "registryInvariant (fst (register ac c (s, st))) (snd (register ac c (s, st)))
       \<and> keepsInstances s (fst (register ac c (s, st)))"
  using assms
  by (cases c)
    (simp_all add: Counter_invariant Gauge_invariant Timer_invariant Histogram_invariant
      Counter_keeps Gauge_keeps Timer_keeps Histogram_keeps)

lemma registerAll_invariant:
  assumes "registryInvariant s st"
  shows "registryInvariant (fst (registerAll ac calls (s, st)))
           (snd (registerAll ac calls (s, st)))
       \<and> keepsInstances s (fst (registerAll ac calls (s, st)))"
  using assms
proof (induction calls arbitrary: s st)
  case Nil
  then show ?case by (simp add: registerAll_def keepsInstances_refl)
next
  case (Cons c calls)
  obtain s1 st1 where r: "register ac c (s, st) = (s1, st1)"
    by (cases "register ac c (s, st)")
  have i1: "registryInvariant s1 st1" and k1: "keepsInstances s s1"
    using register_step [OF Cons.prems, of ac c] r by simp_all
  have "registryInvariant (fst (registerAll ac calls (s1, st1)))
           (snd (registerAll ac calls (s1, st1)))
       \<and> keepsInstances s1 (fst (registerAll ac calls (s1, st1)))"
    by (rule Cons.IH [OF i1])
  then show ?case
    using k1 r by (auto simp: registerAll_def intro: keepsInstances_trans)
qed

text \<open>
  Claim C1. From a scope in which every kind has one instance per name (as in a fresh
  root scope), any sequence of calls of \<open>Counter\<close>, \<open>Gauge\<close>, \<open>Timer\<close> and \<open>Histogram\<close>
  leads to a scope in which this still holds: for counters, gauges and histograms the
  slice lists exactly the instances of the map, each once and in the order of their
  allocation, and there are as many instances as sanitized names; distinct timer names
  have distinct instances. Every
  instance registered before is still registered under its name. A call whose name
  sanitizes to a registered name returns the registered instance and changes neither
  the scope nor the heap, and the trace gains only the read lock and unlock of the kind
  (no allocation event). The name of every call is registered afterwards with the
  instance the call returned, so a later call for the same sanitized name returns it.
\<close>

theorem registration_one_instance_per_name:
  assumes "registryInvariant s st"
    and "registerAll ac calls (s, st) = (s', st')"
  shows "registryInvariant s' st' \<and> keepsInstances s s'
    \<and> (\<forall>n c. fmlookup (counters s') (Name (sanitizer s') n) = Some c \<longrightarrow>
          Counter s' st' n = (c, s', st'\<lparr>trace := trace st' @ [RLock CM, RUnlock CM]\<rparr>))
    \<and> (\<forall>n g. fmlookup (gauges s') (Name (sanitizer s') n) = Some g \<longrightarrow>
          Gauge s' st' n = (g, s', st'\<lparr>trace := trace st' @ [RLock GM, RUnlock GM]\<rparr>))
    \<and> (\<forall>n t. fmlookup (timers s') (Name (sanitizer s') n) = Some t \<longrightarrow>
          Timer s' st' n = (t, s', st'\<lparr>trace := trace st' @ [RLock TM, RUnlock TM]\<rparr>))
    \<and> (\<forall>n h b. fmlookup (histograms s') (Name (sanitizer s') n) = Some h \<longrightarrow>
          Histogram ac s' st' n b
            = (Inr h, s', st'\<lparr>trace := trace st' @ [RLock HM, RUnlock HM]\<rparr>))
    \<and> (\<forall>n. fmlookup (counters (fst (snd (Counter s' st' n)))) (Name (sanitizer s') n)
            = Some (fst (Counter s' st' n)))
    \<and> (\<forall>n. fmlookup (gauges (fst (snd (Gauge s' st' n)))) (Name (sanitizer s') n)
            = Some (fst (Gauge s' st' n)))
    \<and> (\<forall>n. fmlookup (timers (fst (snd (Timer s' st' n)))) (Name (sanitizer s') n)
            = Some (fst (Timer s' st' n)))
    \<and> (\<forall>n b h. fst (Histogram ac s' st' n b) = Inr h \<longrightarrow>
          fmlookup (histograms (fst (snd (Histogram ac s' st' n b)))) (Name (sanitizer s') n)
            = Some h)"
  using registerAll_invariant [OF assms(1), of ac calls] assms(2)
  by (simp add: Counter_hit Gauge_hit Timer_hit Histogram_hit emits_def
      Counter_registers Gauge_registers Timer_registers Histogram_registers)

lemma newRootScope_invariant:
  "registryInvariant (scopes (newRootScope ord opts interval) ! 0)
     (mem (newRootScope ord opts interval))"
  by (simp add: newRootScope_def Let_def registryInvariant_def oneInstancePerName_def
      injectiveMap_def fcard_fempty)

theorem registration_one_instance_per_name_witness:
  "registryInvariant (scopes (newRootScope (pickOrder []) svcOptions 0) ! 0)
     (mem (newRootScope (pickOrder []) svcOptions 0))
   \<and> registryInvariant
       (fst (registerAll sampleAccumulator [CallCounter ''a'', CallCounter ''a'']
          (scopes (newRootScope (pickOrder []) svcOptions 0) ! 0,
           mem (newRootScope (pickOrder []) svcOptions 0))))
       (snd (registerAll sampleAccumulator [CallCounter ''a'', CallCounter ''a'']
          (scopes (newRootScope (pickOrder []) svcOptions 0) ! 0,
           mem (newRootScope (pickOrder []) svcOptions 0))))
   \<and> countersSlice
       (fst (registerAll sampleAccumulator [CallCounter ''a'', CallCounter ''a'']
          (scopes (newRootScope (pickOrder []) svcOptions 0) ! 0,
           mem (newRootScope (pickOrder []) svcOptions 0)))) = [0]"
proof -
  let ?s = "scopes (newRootScope (pickOrder []) svcOptions 0) ! 0"
  let ?st = "mem (newRootScope (pickOrder []) svcOptions 0)"
  let ?R = "registerAll sampleAccumulator [CallCounter ''a'', CallCounter ''a''] (?s, ?st)"
  have i: "registryInvariant ?s ?st"
    by (rule newRootScope_invariant)
  have r: "?R = (fst ?R, snd ?R)" by simp
  have c: "countersSlice (fst ?R) = [0]"
    by (simp add: registerAll_def newRootScope_def svcOptions_def Counter_def counter_def
        Let_def emit_def alloc_def copyAndSanitizeMap_def gorange_def
        List.map_filter_def gomap_def NewNoOpSanitizer_def pickOrder_def)
  show ?thesis
    using i c registration_one_instance_per_name [OF i r] by simp
qed


section \<open>Histograms and bucket storage\<close>

text \<open>
  Claim C6. \<open>Histogram\<close> with a non-nil bucket set that is neither \<open>DurationBuckets\<close> nor
  \<open>ValueBuckets\<close> never constructs a histogram. When the sanitized name is not
  registered, the call panics in the type assertion of \<open>getBucketsIdentity\<close>, whatever
  the state, and the scope and the heap are as before the call (the cached reporter, if
  any, has been asked to allocate a histogram handle before the panic). When the name is
  registered, nothing is constructed and the registered histogram is returned.
\<close>

theorem Histogram_rejects_foreign_buckets:
  "Histogram ac s st n (Some (OtherBuckets k)) =
     (case fmlookup (histograms s) (Name (sanitizer s) n) of
        Some h \<Rightarrow> (Inr h, s, st\<lparr>trace := trace st @ [RLock HM, RUnlock HM]\<rparr>)
      | None \<Rightarrow>
         (Inl TypeAssertionPanic, s,
          st\<lparr>trace := trace st @ [RLock HM, RUnlock HM, Lock HM]
             @ (case cachedReporter s of
                  None \<Rightarrow> []
                | Some cr \<Rightarrow> [AllocateHistogram cr
                     (fullyQualifiedName s (Name (sanitizer s) n)) (tags s) (OtherBuckets k)])
             @ [Unlock HM]\<rparr>))"
  by (simp add: Histogram_miss Histogram_hit Let_def getBucketsIdentity_def emits_def
      split: option.splits)

lemma getBucketsIdentity_ignores_type:
  "getBucketsIdentity ac (DurationBuckets xs) = getBucketsIdentity ac (ValueBuckets xs)"
  by (simp add: getBucketsIdentity_def uint64_def Float64bits_def)

lemma getBucketsIdentity_collides:
  "\<exists>xs ys. xs \<noteq> ys
     \<and> getBucketsIdentity ac (DurationBuckets xs) = getBucketsIdentity ac (DurationBuckets ys)"
proof -
  let ?f = "\<lambda>xs. getBucketsIdentity ac (DurationBuckets xs)"
  have fin: "finite (range ?f)"
  proof (rule finite_subset)
    show "range ?f \<subseteq> Inr ` (UNIV :: 64 word set)"
      by (auto simp: getBucketsIdentity_def)
    show "finite (Inr ` (UNIV :: 64 word set) :: (panic + 64 word) set)"
      by simp
  qed
  have "\<not> inj ?f"
  proof
    assume "inj ?f"
    then have "finite (UNIV :: 64 word list set)"
      using fin by (rule finite_imageD [rotated])
    then show False by (simp add: infinite_UNIV_listI)
  qed
  then show ?thesis by (auto simp: inj_on_def)
qed

lemma injectiveMap_inj:
  assumes "injectiveMap m n" and "fmlookup m k = Some a" and "fmlookup m k' = Some a"
  shows "k = k'"
proof -
  let ?f = "\<lambda>x. the (fmlookup m x)"
  have img: "fset (fmran m) = ?f ` fset (fmdom m)"
  proof (rule set_eqI)
    fix y
    show "y \<in> fset (fmran m) \<longleftrightarrow> y \<in> ?f ` fset (fmdom m)"
    proof
      assume "y \<in> fset (fmran m)"
      then obtain x where x: "fmlookup m x = Some y"
        by (auto simp: fmlookup_ran_iff)
      then have "x \<in> fset (fmdom m)" "y = ?f x"
        by (auto simp: fmlookup_dom_iff)
      then show "y \<in> ?f ` fset (fmdom m)" by blast
    next
      assume "y \<in> ?f ` fset (fmdom m)"
      then obtain x where "x \<in> fset (fmdom m)" "y = ?f x" by auto
      then have "fmlookup m x = Some y"
        by (auto simp: fmlookup_dom_iff)
      then show "y \<in> fset (fmran m)"
        by (auto simp: fmlookup_ran_iff)
    qed
  qed
  have "card (?f ` fset (fmdom m)) = card (fset (fmdom m))"
    using assms(1) img by (simp add: injectiveMap_def fcard.rep_eq)
  then have "inj_on ?f (fset (fmdom m))"
    by (intro eq_card_imp_inj_on) simp_all
  moreover have "k \<in> fset (fmdom m)" "k' \<in> fset (fmdom m)"
    using assms(2,3) by (auto simp: fmlookup_dom_iff)
  ultimately show ?thesis
    using assms(2,3) by (auto simp: inj_on_def)
qed

lemma injectiveMap_bound:
  "injectiveMap m n \<Longrightarrow> fmlookup m k = Some a \<Longrightarrow> a < n"
  by (auto simp: injectiveMap_def fmlookup_ran_iff)


lemma storageOf_prefix:
  "storageOf st h = Some sto \<Longrightarrow> heap st' = heap st @ xs \<Longrightarrow> storageOf st' h = Some sto"
  by (auto simp: storageOf_def nth_append split: if_splits)

lemma Counter_extends: "extends (s, st) (snd (Counter s st n))"
  by (cases "fmlookup (counters s) (Name (sanitizer s) n)")
    (simp_all add: Counter_miss Counter_hit extends_def emits_def)

lemma Gauge_extends: "extends (s, st) (snd (Gauge s st n))"
  by (cases "fmlookup (gauges s) (Name (sanitizer s) n)")
    (simp_all add: Gauge_miss Gauge_hit extends_def emits_def)

lemma Timer_extends: "extends (s, st) (snd (Timer s st n))"
  by (cases "fmlookup (timers s) (Name (sanitizer s) n)")
    (simp_all add: Timer_miss Timer_hit extends_def emits_def)

lemma Histogram_extends: "extends (s, st) (snd (Histogram ac s st n b0))"
  by (cases "fmlookup (histograms s) (Name (sanitizer s) n)")
    (auto simp: Histogram_miss Histogram_hit extends_def emits_def Let_def
      split: sum.splits option.splits)

lemma register_extends: "extends (s, st) (register ac c (s, st))"
  by (cases c)
    (simp_all add: Counter_extends Gauge_extends Timer_extends Histogram_extends)

lemma linked_extends:
  assumes "linked ac s st hb" and "extends (s, st) (s', st')"
  shows "linked ac s' st' hb"
proof -
  obtain k sto where k: "getBucketsIdentity ac (snd hb) = Inr k"
    and c: "fmlookup (bucketCache s) k = Some sto"
    and h: "storageOf st (fst hb) = Some sto"
    using assms(1) by (auto simp: linked_def split: sum.splits option.splits)
  obtain xs where xs: "heap st' = heap st @ xs"
    using assms(2) by (auto simp: extends_def)
  have "fmlookup (bucketCache s') k = Some sto"
    using assms(2) c by (auto simp: extends_def)
  moreover have "storageOf st' (fst hb) = Some sto"
    using storageOf_prefix [OF h xs] .
  ultimately show ?thesis
    using k by (simp add: linked_def)
qed

lemma constructed_linked:
  "list_all (linked ac (fst (register ac c (s, st))) (snd (register ac c (s, st))))
     (constructed ac c (s, st))"
proof (cases c)
  case (CallHistogram n b0)
  show ?thesis
  proof (cases "fmlookup (histograms s) (Name (sanitizer s) n)")
    case None
    show ?thesis
      using None
      by (auto simp: CallHistogram Histogram_miss Let_def linked_def storageOf_def
          effectiveBuckets_def nth_append split: sum.splits option.splits)
  next
    case (Some h)
    then show ?thesis by (simp add: CallHistogram)
  qed
qed simp_all

lemma creations_linked:
  assumes "list_all (linked ac s st) L"
  shows "list_all (linked ac (fst (registerAll ac calls (s, st)))
                          (snd (registerAll ac calls (s, st))))
           (L @ creations ac calls (s, st))"
  using assms
proof (induction calls arbitrary: s st L)
  case Nil
  then show ?case by (simp add: registerAll_def)
next
  case (Cons c calls)
  obtain s1 st1 where r: "register ac c (s, st) = (s1, st1)"
    by (cases "register ac c (s, st)")
  have e: "extends (s, st) (s1, st1)"
    using register_extends [of s st ac c] r by simp
  have "list_all (linked ac s1 st1) L"
    using Cons.prems e by (auto simp: list_all_iff intro: linked_extends)
  moreover have "list_all (linked ac s1 st1) (constructed ac c (s, st))"
    using constructed_linked [of ac c s st] r by simp
  ultimately have "list_all (linked ac s1 st1) (L @ constructed ac c (s, st))"
    by simp
  from Cons.IH [OF this] show ?case
    using r by (simp add: registerAll_def)
qed

lemma constructed_covers:
  assumes "fmlookup (histograms (fst (register ac c (s, st)))) n = Some h"
  shows "fmlookup (histograms s) n = Some h \<or> h \<in> fst ` set (constructed ac c (s, st))"
proof (cases c)
  case (CallCounter m)
  then show ?thesis using assms
    by (cases "fmlookup (counters s) (Name (sanitizer s) m)")
      (simp_all add: Counter_miss Counter_hit)
next
  case (CallGauge m)
  then show ?thesis using assms
    by (cases "fmlookup (gauges s) (Name (sanitizer s) m)")
      (simp_all add: Gauge_miss Gauge_hit)
next
  case (CallTimer m)
  then show ?thesis using assms
    by (cases "fmlookup (timers s) (Name (sanitizer s) m)")
      (simp_all add: Timer_miss Timer_hit)
next
  case (CallHistogram m b0)
  show ?thesis
  proof (cases "fmlookup (histograms s) (Name (sanitizer s) m)")
    case None
    show ?thesis
      using assms None
      by (auto simp: CallHistogram Histogram_miss Let_def
          split: sum.splits option.splits if_splits)
  next
    case (Some x)
    then show ?thesis using assms by (simp add: CallHistogram Histogram_hit)
  qed
qed

lemma creations_cover:
  assumes "fmlookup (histograms (fst (registerAll ac calls (s, st)))) n = Some h"
  shows "fmlookup (histograms s) n = Some h \<or> h \<in> fst ` set (creations ac calls (s, st))"
  using assms
proof (induction calls arbitrary: s st)
  case Nil
  then show ?case by (simp add: registerAll_def)
next
  case (Cons c calls)
  obtain s1 st1 where r: "register ac c (s, st) = (s1, st1)"
    by (cases "register ac c (s, st)")
  have "fmlookup (histograms (fst (registerAll ac calls (s1, st1)))) n = Some h"
    using Cons.prems r by (simp add: registerAll_def)
  from Cons.IH [OF this]
  have "fmlookup (histograms s1) n = Some h \<or> h \<in> fst ` set (creations ac calls (s1, st1))" .
  then show ?case
  proof
    assume "fmlookup (histograms s1) n = Some h"
    then have "fmlookup (histograms (fst (register ac c (s, st)))) n = Some h"
      using r by simp
    from constructed_covers [OF this] show ?thesis by auto
  next
    assume "h \<in> fst ` set (creations ac calls (s1, st1))"
    then show ?thesis using r by auto
  qed
qed


text \<open>
  Claim C4, amended. The key of the bucket-storage cache is \<open>getBucketsIdentity\<close> of the
  bucket set. Take any sequence of registration calls on a scope, and any two histograms
  that the sequence constructs, whatever is registered before, between and after them:
  in the final state the two histograms reference the same bucket storage exactly when
  their bucket sets have the same key. Bucket sets that are equal (same type, same
  boundary sequence) have the same key, so their histograms share one storage object.
  Every histogram of the final scope that was not registered at the start is one of
  those constructed; from a fresh scope these are all histograms of the scope.
\<close>

theorem bucket_storage_shared_by_identity:
  assumes inv: "registryInvariant s st"
    and run: "registerAll ac calls (s, st) = (s', st')"
    and m1: "(h1, b1) \<in> set (creations ac calls (s, st))"
    and m2: "(h2, b2) \<in> set (creations ac calls (s, st))"
  shows "(\<exists>sto1 sto2.
            storageOf st' h1 = Some sto1 \<and> storageOf st' h2 = Some sto2
            \<and> (sto1 = sto2 \<longleftrightarrow> getBucketsIdentity ac b1 = getBucketsIdentity ac b2)
            \<and> (b1 = b2 \<longrightarrow> sto1 = sto2))
       \<and> (\<forall>n h. fmlookup (histograms s') n = Some h \<longrightarrow>
             fmlookup (histograms s) n = Some h
             \<or> h \<in> fst ` set (creations ac calls (s, st)))"
proof -
  have "list_all (linked ac s' st') ([] @ creations ac calls (s, st))"
    using creations_linked [of ac s st "[]" calls] run by simp
  then have l1: "linked ac s' st' (h1, b1)" and l2: "linked ac s' st' (h2, b2)"
    using m1 m2 by (auto simp: list_all_iff)
  have cache: "injectiveMap (bucketCache s') (length (heap st'))"
    using registerAll_invariant [OF inv, of ac calls] run
    by (simp add: registryInvariant_def)
  obtain k1 sto1 where k1: "getBucketsIdentity ac b1 = Inr k1"
    and c1: "fmlookup (bucketCache s') k1 = Some sto1"
    and s1: "storageOf st' h1 = Some sto1"
    using l1 by (auto simp: linked_def split: sum.splits option.splits)
  obtain k2 sto2 where k2: "getBucketsIdentity ac b2 = Inr k2"
    and c2: "fmlookup (bucketCache s') k2 = Some sto2"
    and s2: "storageOf st' h2 = Some sto2"
    using l2 by (auto simp: linked_def split: sum.splits option.splits)
  have "sto1 = sto2 \<longleftrightarrow> k1 = k2"
    using injectiveMap_inj [OF cache c1, of k2] c1 c2 by auto
  moreover have "b1 = b2 \<longrightarrow> k1 = k2"
    using k1 k2 by auto
  ultimately have first: "\<exists>sto1 sto2.
      storageOf st' h1 = Some sto1 \<and> storageOf st' h2 = Some sto2
      \<and> (sto1 = sto2 \<longleftrightarrow> getBucketsIdentity ac b1 = getBucketsIdentity ac b2)
      \<and> (b1 = b2 \<longrightarrow> sto1 = sto2)"
    using s1 s2 k1 k2 by auto
  have second: "\<forall>n h. fmlookup (histograms s') n = Some h \<longrightarrow>
      fmlookup (histograms s) n = Some h \<or> h \<in> fst ` set (creations ac calls (s, st))"
    using creations_cover [of ac calls s st] run by simp
  show ?thesis using first second by (rule conjI)
qed

lemma freshRoot_eval:
  "freshRoot = (\<lparr>separator = ''.'', prefix = ''svc'', tags = Some fmempty,
       reporter = Some exampleReporter, cachedReporter = None,
       baseReporter = Some exampleReporter, defaultBuckets = defaultScopeBuckets,
       sanitizer = NewNoOpSanitizer, closed = False, quit = OpenChan,
       counters = fmempty, countersSlice = [],
       gauges = fmempty, gaugesSlice = [], histograms = fmempty, histogramsSlice = [],
       timers = fmempty, bucketCache = fmempty\<rparr>,
     \<lparr>heap = [], trace = []\<rparr>)"
  by (simp add: freshRoot_def newRootScope_def svcOptions_def Let_def
      copyAndSanitizeMap_def gorange_def List.map_filter_def gomap_def pickOrder_def
      NewNoOpSanitizer_def)

text \<open>
  Claim C4 as stated fails: the type discriminant is not part of the key. In a fresh
  root scope, a histogram with the duration bucket 0 and then a histogram with the value
  bucket 0.0 (bit pattern 0) reference the same storage object, which was built for the
  duration type.
\<close>

theorem bucket_storage_shared_across_types_counterexample:
  "fst mixedHistograms = Inr 1 \<and> fst (snd mixedHistograms) = Inr 2
   \<and> storageOf (snd (snd (snd mixedHistograms))) 1 = Some 0
   \<and> storageOf (snd (snd (snd mixedHistograms))) 2 = Some 0
   \<and> htypeOf (DurationBuckets [0]) \<noteq> htypeOf (ValueBuckets [0])
   \<and> heap (snd (snd (snd mixedHistograms)))
       = [StorageObj durationHistogramType (DurationBuckets [0]) None,
          HistogramObj durationHistogramType ''svc.latency'' (Some fmempty)
            (Some exampleReporter) 0,
          HistogramObj valueHistogramType ''svc.size'' (Some fmempty)
            (Some exampleReporter) 0]"
  by (simp add: mixedHistograms_def freshRoot_eval Histogram_def histogram_def Let_def
      emit_def alloc_def getBucketsIdentity_def sampleAccumulator_def uint64_def
      Float64bits_def NewNoOpSanitizer_def fullyQualifiedName_def storageOf_def
      htypeOf_def)

lemma abc_run:
  "registerAll sampleAccumulator abcCalls freshRoot =
     (fst (registerAll sampleAccumulator abcCalls freshRoot),
      \<lparr>heap = [StorageObj durationHistogramType (DurationBuckets [0, 10000000]) None,
               HistogramObj durationHistogramType ''svc.a'' (Some fmempty)
                 (Some exampleReporter) 0,
               StorageObj durationHistogramType (DurationBuckets [0, 20000000]) None,
               HistogramObj durationHistogramType ''svc.b'' (Some fmempty)
                 (Some exampleReporter) 2,
               HistogramObj durationHistogramType ''svc.c'' (Some fmempty)
                 (Some exampleReporter) 0],
        trace = trace (snd (registerAll sampleAccumulator abcCalls freshRoot))\<rparr>)"
  by (simp add: registerAll_def abcCalls_def freshRoot_eval Histogram_def histogram_def
      Let_def emit_def alloc_def getBucketsIdentity_def sampleAccumulator_def uint64_def
      NewNoOpSanitizer_def fullyQualifiedName_def)

lemma abc_creations:
  "creations sampleAccumulator abcCalls freshRoot =
     [(1, DurationBuckets [0, 10000000]), (3, DurationBuckets [0, 20000000]),
      (4, DurationBuckets [0, 10000000])]"
  by (simp add: abcCalls_def freshRoot_eval Histogram_def histogram_def
      Let_def emit_def alloc_def getBucketsIdentity_def sampleAccumulator_def uint64_def
      NewNoOpSanitizer_def fullyQualifiedName_def effectiveBuckets_def)


theorem bucket_storage_shared_by_identity_witness:
  "registryInvariant (fst freshRoot) (snd freshRoot)
   \<and> (1, DurationBuckets [0, 10000000])
        \<in> set (creations sampleAccumulator abcCalls (fst freshRoot, snd freshRoot))
   \<and> (3, DurationBuckets [0, 20000000])
        \<in> set (creations sampleAccumulator abcCalls (fst freshRoot, snd freshRoot))
   \<and> (4, DurationBuckets [0, 10000000])
        \<in> set (creations sampleAccumulator abcCalls (fst freshRoot, snd freshRoot))
   \<and> storageOf (snd (registerAll sampleAccumulator abcCalls freshRoot)) 1 = Some 0
   \<and> storageOf (snd (registerAll sampleAccumulator abcCalls freshRoot)) 3 = Some 2
   \<and> storageOf (snd (registerAll sampleAccumulator abcCalls freshRoot)) 4 = Some 0
   \<and> (\<exists>sto1 sto2.
         storageOf (snd (registerAll sampleAccumulator abcCalls freshRoot)) 1 = Some sto1
         \<and> storageOf (snd (registerAll sampleAccumulator abcCalls freshRoot)) 4 = Some sto2
         \<and> sto1 = sto2)
   \<and> (\<exists>sto1 sto2.
         storageOf (snd (registerAll sampleAccumulator abcCalls freshRoot)) 1 = Some sto1
         \<and> storageOf (snd (registerAll sampleAccumulator abcCalls freshRoot)) 3 = Some sto2
         \<and> sto1 \<noteq> sto2)"
proof -
  let ?s = "fst freshRoot" and ?st = "snd freshRoot"
  let ?R = "registerAll sampleAccumulator abcCalls (?s, ?st)"
  have inv: "registryInvariant ?s ?st"
    by (simp add: freshRoot_eval registryInvariant_def oneInstancePerName_def
        injectiveMap_def fcard_fempty)
  have run: "?R = (fst ?R, snd ?R)" by simp
  have m1: "(1, DurationBuckets [0, 10000000])
              \<in> set (creations sampleAccumulator abcCalls (?s, ?st))"
    and m3: "(3, DurationBuckets [0, 20000000])
              \<in> set (creations sampleAccumulator abcCalls (?s, ?st))"
    and m4: "(4, DurationBuckets [0, 10000000])
              \<in> set (creations sampleAccumulator abcCalls (?s, ?st))"
    by (simp_all add: abc_creations)
  have v: "storageOf (snd (registerAll sampleAccumulator abcCalls freshRoot)) 1 = Some 0"
    "storageOf (snd (registerAll sampleAccumulator abcCalls freshRoot)) 3 = Some 2"
    "storageOf (snd (registerAll sampleAccumulator abcCalls freshRoot)) 4 = Some 0"
    by (subst abc_run, simp add: storageOf_def)+
  have t14: "\<exists>sto1 sto2.
         storageOf (snd (registerAll sampleAccumulator abcCalls freshRoot)) 1 = Some sto1
         \<and> storageOf (snd (registerAll sampleAccumulator abcCalls freshRoot)) 4 = Some sto2
         \<and> sto1 = sto2"
    using bucket_storage_shared_by_identity [OF inv run m1 m4] by auto
  have t13: "\<exists>sto1 sto2.
         storageOf (snd (registerAll sampleAccumulator abcCalls freshRoot)) 1 = Some sto1
         \<and> storageOf (snd (registerAll sampleAccumulator abcCalls freshRoot)) 3 = Some sto2
         \<and> sto1 \<noteq> sto2"
    using bucket_storage_shared_by_identity [OF inv run m1 m3]
    by (auto simp: getBucketsIdentity_def sampleAccumulator_def uint64_def)
  show ?thesis
    using inv m1 m3 m4 v t14 t13 by simp
qed

section \<open>Push reporter and cached reporter together\<close>

lemma reportEvents_not_cached: "list_all (\<lambda>e. \<not> isCachedPath e) (reportEvents ord x r)"
  by (auto simp: reportEvents_def list_all_iff)

lemma pushPass_not_cached: "list_all (\<lambda>e. \<not> isCachedPath e) (pushPass ord r ss)"
  using reportEvents_not_cached
  by (auto simp: pushPass_def list_all_iff)


text \<open>
  Claim C10. In a scope that has both a push reporter and a cached reporter, one pass of
  \<open>reportRegistryWithLock\<close> is the \<open>report\<close> sweep of every scope of the registry with the
  push reporter followed by \<open>Flush\<close> of the push reporter; no event of the cached path
  occurs in it. A tick of an open scope and the first \<open>Close\<close> of an open scope perform
  exactly this pass. \<open>Capabilities\<close> gives the capabilities of the base reporter, which
  \<open>newRootScope\<close> sets to the push reporter. Still, registering a new counter, gauge,
  timer or histogram calls the matching allocation method of the cached reporter, and
  the new counter, gauge or timer holds the handle.
\<close>

theorem push_reporter_drives_reporting:
  assumes "reporter s = Some r" and "cachedReporter s = Some cr"
  shows "reportRegistryWithLock ord s w = emitsW (pushPass ord r (scopes w)) w
    \<and> list_all (\<lambda>e. \<not> isCachedPath e) (pushPass ord r (scopes w))
    \<and> reportLoopRun ord s w
        = emitsW ([RLock StatusMu] @ (if closed s then [] else pushPass ord r (scopes w))
                  @ [RUnlock StatusMu]) w
    \<and> (scopes w ! i = s \<and> \<not> closed s \<and> quit s = OpenChan \<longrightarrow>
         snd (Close ord i w)
           = emitsW ([Lock StatusMu]
                @ pushPass ord r ((scopes w)[i := s\<lparr>closed := True, quit := ClosedChan\<rparr>])
                @ closerEvents (baseReporter s) @ [Unlock StatusMu])
               (w\<lparr>scopes := (scopes w)[i := s\<lparr>closed := True, quit := ClosedChan\<rparr>]\<rparr>))
    \<and> (baseReporter s = Some r \<longrightarrow> Capabilities capabilitiesNone s = caps r)
    \<and> (Reporter opts = Some r \<longrightarrow>
         baseReporter (scopes (newRootScope ord opts interval) ! 0) = Some r
         \<and> Capabilities capabilitiesNone (scopes (newRootScope ord opts interval) ! 0) = caps r)
    \<and> (fmlookup (counters s) (Name (sanitizer s) n) = None \<longrightarrow>
         snd (snd (Counter s st n))
           = \<lparr>heap = heap st @ [CounterObj (Some (length (trace st) + 3))],
              trace = trace st @ [RLock CM, RUnlock CM, Lock CM,
                AllocateCounter cr (fullyQualifiedName s (Name (sanitizer s) n)) (tags s),
                Unlock CM]\<rparr>)
    \<and> (fmlookup (gauges s) (Name (sanitizer s) n) = None \<longrightarrow>
         snd (snd (Gauge s st n))
           = \<lparr>heap = heap st @ [GaugeObj (Some (length (trace st) + 3))],
              trace = trace st @ [RLock GM, RUnlock GM, Lock GM,
                AllocateGauge cr (fullyQualifiedName s (Name (sanitizer s) n)) (tags s),
                Unlock GM]\<rparr>)
    \<and> (fmlookup (timers s) (Name (sanitizer s) n) = None \<longrightarrow>
         snd (snd (Timer s st n))
           = \<lparr>heap = heap st @ [TimerObj (fullyQualifiedName s (Name (sanitizer s) n))
                 (tags s) (Some r) (Some (length (trace st) + 3))],
              trace = trace st @ [RLock TM, RUnlock TM, Lock TM,
                AllocateTimer cr (fullyQualifiedName s (Name (sanitizer s) n)) (tags s),
                Unlock TM]\<rparr>)
    \<and> (fmlookup (histograms s) (Name (sanitizer s) n) = None \<longrightarrow>
         trace (snd (snd (Histogram ac s st n (Some b))))
           = trace st @ [RLock HM, RUnlock HM, Lock HM,
               AllocateHistogram cr (fullyQualifiedName s (Name (sanitizer s) n)) (tags s) b,
               Unlock HM])"
  using assms
  by (auto simp: reportRegistryWithLock_emits reportLoopRun_emits passEvents_def
      pushPass_not_cached Close_open Let_def Capabilities_def newRootScope_fields
      Counter_miss Gauge_miss Timer_miss Histogram_miss
      split: sum.splits option.splits)

theorem push_reporter_drives_reporting_witness:
  "reporter (scopes busyWorld ! 0) = Some failingReporter
   \<and> cachedReporter (scopes busyWorld ! 0) = Some cachingReporter
   \<and> trace (mem (reportRegistryWithLock (pickOrder [''requests'']) (scopes busyWorld ! 0)
        busyWorld))
     = trace (mem busyWorld)
       @ [RLock CM, CounterReport 0 ''svc.requests'' (Some fmempty) failingReporter,
          RUnlock CM, RLock GM, RUnlock GM, RLock HM, RUnlock HM,
          ReporterFlush failingReporter]
   \<and> heap (mem busyWorld) = [CounterObj (Some 3)]
   \<and> trace (mem busyWorld) ! 3
       = AllocateCounter cachingReporter ''svc.requests'' (Some fmempty)"
proof -
  have a: "reporter (scopes busyWorld ! 0) = Some failingReporter"
    "cachedReporter (scopes busyWorld ! 0) = Some cachingReporter"
    by (simp_all add: busyWorld_eval)
  show ?thesis
    using a push_reporter_drives_reporting
      [OF a, where ord = "pickOrder [''requests'']" and w = busyWorld, THEN conjunct1]
    by (simp add: busyWorld_eval pushPass_def reportEvents_def gorange_def pickOrder_def
        List.map_filter_def fullyQualifiedName_def emitsW_def emits_def)
qed

end
